theory Spec2Isabelle
  imports Complex_Main "HOL-Library.Word"
begin

section \<open>The serial-line inference sketch \<open>hw3.cpp\<close>\<close>

text \<open>
  The sketch reads bytes from the serial port into a 64-byte line buffer, splits a
  completed line into at most seven integers, quantizes them into the int8 input tensor of
  a TensorFlow Lite Micro interpreter, invokes it and prints the dequantized, rounded and
  clamped prediction.  The interpreter, the serial port and the microsecond clock are
  outside the sketch: the interpreter is a function from the input tensor data to a status
  and output tensor data, the serial output is a trace of events, the clock is a function
  of the number of readings taken so far.

  Where C++ leaves the behaviour of the sketch undefined, the model does what the compiled
  sketch does and goes on: \<open>int\<close> arithmetic wraps around in 32 bits, a \<open>float\<close>
  converted to \<open>int8_t\<close> is converted to \<open>int\<close> and cut to its low byte, and a
  string scan that finds no NUL in the line buffer reads on in the memory behind it.  What
  differs between C libraries and processors is a parameter of the environment: the result
  of \<open>atoi\<close> for a number outside \<open>int\<close>, the result of converting a \<open>float\<close>
  that no \<open>int\<close> can hold, and the bytes behind the line buffer.  A run ends only where
  the program cannot go on: at a dereferenced null tensor pointer and at an access outside a
  tensor or outside the line buffer (the latter is shown never to happen).
\<close>

subsection \<open>Constants\<close>

definition INPUT_BUFFER_SIZE :: nat where
  "INPUT_BUFFER_SIZE = 64"

definition INT_ARRAY_SIZE :: nat where
  "INT_ARRAY_SIZE = 7"

definition CR :: char where
  "CR = CHR 0x0D"

definition NUL :: char where
  "NUL = CHR 0x00"

subsection \<open>The type \<open>int\<close>\<close>

text \<open>
  \<open>int\<close> is 32 bits wide on the boards that run the interpreter.  \<open>wrap_int\<close> is the
  value the low 32 bits of an integer denote in two's complement.
\<close>

definition in_int_range :: "int \<Rightarrow> bool" where
  "in_int_range i = (- (2 ^ 31) \<le> i \<and> i < 2 ^ 31)"

definition wrap_int :: "int \<Rightarrow> int" where
  "wrap_int i = (i + 2 ^ 31) mod 2 ^ 32 - 2 ^ 31"

subsection \<open>Single-precision arithmetic\<close>

text \<open>
  A finite \<open>float\<close> is the rational it denotes; \<open>None\<close> stands for an infinity or a
  NaN.  Each arithmetic operation of IEEE 754 binary32 is the exact operation followed by
  \<open>f32\<close>, rounding to the nearest value with a 24-bit significand (ties to the even
  significand), with subnormals below \<open>pow2 (-126)\<close> and overflow to infinity from
  \<open>pow2 128\<close> on.  The sign of a zero is not kept: the sketch only converts its floats
  to integers and prints them.  The scales of the tensors are finite.
\<close>

definition pow2 :: "int \<Rightarrow> rat" where
  "pow2 e = (if 0 \<le> e then 2 ^ nat e else 1 / 2 ^ nat (- e))"

text \<open>The number of binary digits of a positive integer.\<close>

function bit_length :: "int \<Rightarrow> nat" where
  "bit_length n = (if n \<le> 0 then 0 else Suc (bit_length (n div 2)))"
  by pat_completeness auto
termination
  by (relation "measure nat") auto

declare bit_length.simps [simp del]

text \<open>The binary exponent of a positive rational \<open>r\<close>: \<open>pow2 e \<le> r < pow2 (e + 1)\<close>.\<close>

definition ilog2 :: "rat \<Rightarrow> int" where
  "ilog2 r =
     (let (p, q) = quotient_of r;
          e = int (bit_length p) - int (bit_length q)
      in if pow2 e \<le> r then e else e - 1)"

definition round_half_even :: "rat \<Rightarrow> int" where
  "round_half_even x =
     (let f = \<lfloor>x\<rfloor>; d = x - of_int f
      in if d < 1 / 2 then f
         else if 1 / 2 < d then f + 1
         else if even f then f else f + 1)"

definition f32_ulp :: "rat \<Rightarrow> rat" where
  "f32_ulp r = pow2 (max (ilog2 \<bar>r\<bar>) (- 126) - 23)"

definition f32 :: "rat \<Rightarrow> rat option" where
  "f32 r =
     (if r = 0 then Some 0
      else let u = f32_ulp r; v = of_int (round_half_even (r / u)) * u
           in if \<bar>v\<bar> < pow2 128 then Some v else None)"

text \<open>
  Conversion of an \<open>int\<close> to \<open>float\<close>, and the division and the multiplication of a
  \<open>float\<close> by a scale.  A division by zero gives an infinity or a NaN.
\<close>

definition float_of_int :: "int \<Rightarrow> rat option" where
  "float_of_int i = f32 (of_int i)"

definition float_div :: "rat option \<Rightarrow> rat \<Rightarrow> rat option" where
  "float_div a b = (case a of None \<Rightarrow> None | Some x \<Rightarrow> if b = 0 then None else f32 (x / b))"

definition float_mul :: "rat option \<Rightarrow> rat \<Rightarrow> rat option" where
  "float_mul a b = (case a of None \<Rightarrow> None | Some x \<Rightarrow> f32 (x * b))"

text \<open>Conversion of a \<open>float\<close> to an integer type truncates toward zero.\<close>

definition trunc_toward_zero :: "rat \<Rightarrow> int" where
  "trunc_toward_zero x = (if 0 \<le> x then \<lfloor>x\<rfloor> else \<lceil>x\<rceil>)"

text \<open>
  \<open>round\<close>: to the nearest integer, halfway cases away from zero; an infinity or a NaN
  stays what it is.
\<close>

definition round_half_away :: "rat \<Rightarrow> int" where
  "round_half_away x = (if 0 \<le> x then \<lfloor>x + 1 / 2\<rfloor> else \<lceil>x - 1 / 2\<rceil>)"

definition round_float :: "rat option \<Rightarrow> rat option" where
  "round_float y = (case y of None \<Rightarrow> None | Some v \<Rightarrow> Some (of_int (round_half_away v)))"

subsection \<open>Events, tensors, the program state and the environment\<close>

datatype fault =
    BufferWriteOutOfBounds  \<comment> \<open>a store at \<open>in_str_buff[i]\<close> with \<open>i \<ge> 64\<close>\<close>
  | NullTensor              \<comment> \<open>\<open>input_tensor\<close> or \<open>output_tensor\<close> dereferenced while null\<close>
  | TensorOutOfBounds       \<comment> \<open>an access past the end of a tensor's data\<close>

datatype event =
    Echo char                   \<comment> \<open>\<open>Serial.print(received_char)\<close>\<close>
  | Print string                \<comment> \<open>\<open>Serial.print\<close> of a text\<close>
  | Println string              \<comment> \<open>\<open>Serial.println\<close> of a text (empty: the bare line end)\<close>
  | PrintlnFloat "rat option"   \<comment> \<open>\<open>Serial.println(predicted_float)\<close>\<close>
  | PrintlnInt int              \<comment> \<open>\<open>Serial.println(predicted_integer)\<close>\<close>
  | PrintlnULong "32 word"      \<comment> \<open>\<open>Serial.println\<close> of an \<open>unsigned long\<close>\<close>
  | Invoke "8 word list"        \<comment> \<open>\<open>interpreter->Invoke()\<close>, with the input tensor data it sees\<close>

record tensor =
  type_is_int8 :: bool          \<comment> \<open>\<open>type == kTfLiteInt8\<close>\<close>
  params_scale :: rat           \<comment> \<open>\<open>params.scale\<close>\<close>
  params_zero_point :: int      \<comment> \<open>\<open>params.zero_point\<close>\<close>
  data_int8 :: "8 word list"    \<comment> \<open>\<open>data.int8\<close>\<close>

record state =
  in_str_buff :: string
  input_array :: "int list"
  in_buff_idx :: nat
  input_tensor :: "tensor option"
  output_tensor :: "tensor option"
  clock_reads :: nat
  trace :: "event list"

text \<open>
  What the sketch is linked and run with: the embedded model and the interpreter built on
  it, the clock, and the platform.  \<open>input0\<close> and \<open>output0\<close> are the tensors
  \<open>interpreter->input(0)\<close> and \<open>interpreter->output(0)\<close> point to once the tensors are
  allocated; \<open>invoke\<close> maps the input tensor data to the output tensor data, or to
  \<open>None\<close> when \<open>Invoke()\<close> does not return \<open>kTfLiteOk\<close>; \<open>micros\<close> gives the value
  of the \<open>k\<close>-th reading of the microsecond counter.  Of the platform,
  \<open>atoi_overflow\<close> is what \<open>atoi\<close> returns for a number outside \<open>int\<close> (given that
  number), \<open>float_to_int_overflow\<close> is what the conversion of a \<open>float\<close> to \<open>int\<close>
  gives when the \<open>float\<close> is not finite or its integer part is outside \<open>int\<close>, and
  \<open>memory_behind_buffer\<close> is the bytes that lie behind the line buffer in memory; of
  the first two the low 32 bits count.
\<close>

record env =
  model_version :: nat
  TFLITE_SCHEMA_VERSION :: nat
  allocate_ok :: bool
  input0 :: tensor
  output0 :: tensor
  invoke :: "8 word list \<Rightarrow> 8 word list option"
  micros :: "nat \<Rightarrow> 32 word"
  atoi_overflow :: "int \<Rightarrow> int"
  float_to_int_overflow :: "rat option \<Rightarrow> int"
  memory_behind_buffer :: "state \<Rightarrow> string"

text \<open>
  The result of a function of the sketch: the state it returns with, or the fault that
  ends the run together with the state reached.
\<close>

type_synonym result = "(fault \<times> state) + state"

definition emit :: "event list \<Rightarrow> state \<Rightarrow> state" where
  "emit es s = s\<lparr>trace := trace s @ es\<rparr>"

text \<open>The globals as the C++ runtime zero-initialises them, before \<open>setup\<close> runs.\<close>

definition initial_state :: state where
  "initial_state =
     \<lparr>in_str_buff = replicate INPUT_BUFFER_SIZE NUL,
      input_array = replicate INT_ARRAY_SIZE 0,
      in_buff_idx = 0,
      input_tensor = None,
      output_tensor = None,
      clock_reads = 0,
      trace = []\<rparr>"

subsection \<open>The C library's \<open>atoi\<close> and \<open>strtok\<close>\<close>

text \<open>
  \<open>atoi\<close> skips leading white space, reads an optional sign and the longest run of
  decimal digits that follows, and ignores the rest; with no digit it returns 0.  C defines
  the result only when the number fits an \<open>int\<close>; for the others the platform decides.
\<close>

definition isspace :: "char \<Rightarrow> bool" where
  "isspace c = (c \<in> set [CHR '' '', CHR 0x09, CHR 0x0A, CHR 0x0B, CHR 0x0C, CHR 0x0D])"

definition isdigit :: "char \<Rightarrow> bool" where
  "isdigit c = (c \<in> set ''0123456789'')"

definition digit_val :: "char \<Rightarrow> int" where
  "digit_val c = of_char c - 48"

definition digits_value :: "string \<Rightarrow> int" where
  "digits_value s = foldl (\<lambda>a c. 10 * a + digit_val c) 0 (takeWhile isdigit s)"

definition atoi :: "env \<Rightarrow> string \<Rightarrow> int" where
  "atoi e s =
     (let t = dropWhile isspace s;
          v = (case t of
                 [] \<Rightarrow> 0
               | c # r \<Rightarrow>
                   if c = CHR ''-'' then - digits_value r
                   else if c = CHR ''+'' then digits_value r
                   else digits_value t)
      in if in_int_range v then v else wrap_int (atoi_overflow e v))"

text \<open>
  \<open>strtok\<close> with the delimiter set \<open>","\<close>, on the rest of the string still to be
  scanned: it skips leading commas, returns \<open>None\<close> (the null pointer) when nothing is
  left, and otherwise the token up to the next comma together with the rest after that
  comma, which the next call \<open>strtok(NULL, ",")\<close> scans.
\<close>

definition is_comma :: "char \<Rightarrow> bool" where
  "is_comma c = (c = CHR '','')"

definition strtok :: "string \<Rightarrow> (string \<times> string) option" where
  "strtok s =
     (let t = dropWhile is_comma s
      in if t = [] then None
         else Some (takeWhile (\<lambda>c. \<not> is_comma c) t,
                    drop 1 (dropWhile (\<lambda>c. \<not> is_comma c) t)))"

subsection \<open>\<open>string_to_array\<close>\<close>

text \<open>
  The loop of \<open>string_to_array\<close>: \<open>token\<close> is the pending result of \<open>strtok\<close>,
  \<open>int_array\<close> the array being filled and \<open>num_integers\<close> the count so far.  The loop
  leaves through the \<open>break\<close> as soon as the count reaches \<open>INT_ARRAY_SIZE\<close>.
\<close>

function string_to_array_loop ::
  "env \<Rightarrow> (string \<times> string) option \<Rightarrow> int list \<Rightarrow> nat \<Rightarrow> nat \<times> int list" where
  "string_to_array_loop e token int_array num_integers =
     (case token of
        None \<Rightarrow> (num_integers, int_array)
      | Some (tok, rest) \<Rightarrow>
          (let int_array' = int_array[num_integers := atoi e tok];
               num_integers' = num_integers + 1;
               token' = strtok rest
           in if num_integers' \<ge> INT_ARRAY_SIZE then (num_integers', int_array')
              else string_to_array_loop e token' int_array' num_integers'))"
  by pat_completeness auto
termination
  by (relation "measure (\<lambda>(e, token, int_array, num_integers). INT_ARRAY_SIZE - num_integers)")
     (auto simp: INT_ARRAY_SIZE_def)

declare string_to_array_loop.simps [simp del]

definition string_to_array :: "env \<Rightarrow> string \<Rightarrow> int list \<Rightarrow> nat \<times> int list" where
  "string_to_array e in_str int_array = string_to_array_loop e (strtok in_str) int_array 0"

subsection \<open>\<open>setup\<close>\<close>

text \<open>
  \<open>setup\<close> is a command name of Isabelle; the function is \<open>setup_sketch\<close> here.
  \<open>Serial.begin\<close> and \<open>delay\<close> leave no mark on the state.  On either early return the
  tensor pointers keep their initial value, the null pointer.
\<close>

definition setup_sketch :: "env \<Rightarrow> state" where
  "setup_sketch e =
     (let s = emit [Println ''TFLM Sine Wave Prediction Model Initializing...''] initial_state
      in if model_version e \<noteq> TFLITE_SCHEMA_VERSION e
         then emit [Println ''Model schema version mismatch!''] s
         else if \<not> allocate_ok e
         then emit [Println ''Failed to allocate tensors!''] s
         else emit [Println ''Model loaded successfully!'']
                (s\<lparr>input_tensor := Some (input0 e), output_tensor := Some (output0 e)\<rparr>))"

subsection \<open>Quantization and dequantization\<close>

text \<open>
  The conversion of a \<open>float\<close> to \<open>int\<close>: the integer part where \<open>int\<close> can hold it,
  and what the platform gives otherwise.
\<close>

definition float_to_int :: "env \<Rightarrow> rat option \<Rightarrow> int" where
  "float_to_int e y =
     (case y of
        None \<Rightarrow> wrap_int (float_to_int_overflow e y)
      | Some v \<Rightarrow>
          if in_int_range (trunc_toward_zero v) then trunc_toward_zero v
          else wrap_int (float_to_int_overflow e y))"

text \<open>
  The body of the quantization loop:
  \<open>static_cast<int8_t>((input_array[i] - input_zero_point) / input_scale)\<close>.
  The subtraction is in \<open>int\<close>, its result is converted to \<open>float\<close> and divided by the
  scale, and the quotient is converted to \<open>int8_t\<close>: to \<open>int\<close>, of which the low byte
  is kept.  Nothing brings the quotient into the range of \<open>int8_t\<close> first.
\<close>

definition quantize :: "env \<Rightarrow> rat \<Rightarrow> int \<Rightarrow> int \<Rightarrow> 8 word" where
  "quantize e input_scale input_zero_point x =
     word_of_int
       (float_to_int e (float_div (float_of_int (wrap_int (x - input_zero_point))) input_scale))"

function quantize_loop ::
  "env \<Rightarrow> rat \<Rightarrow> int \<Rightarrow> int list \<Rightarrow> 8 word list \<Rightarrow> nat \<Rightarrow> 8 word list option" where
  "quantize_loop e input_scale input_zero_point arr dat i =
     (if i < INT_ARRAY_SIZE
      then (let quantized_value = quantize e input_scale input_zero_point (arr ! i)
            in if i < length dat
               then quantize_loop e input_scale input_zero_point arr
                      (dat[i := quantized_value]) (i + 1)
               else None)
      else Some dat)"
  by pat_completeness auto
termination
  by (relation "measure (\<lambda>(e, sc, zp, arr, dat, i). INT_ARRAY_SIZE - i)") auto

declare quantize_loop.simps [simp del]

text \<open>
  \<open>float predicted_float = (raw_prediction - output_zero_point) * output_scale\<close>:
  the \<open>int8_t\<close> is promoted to \<open>int\<close>, the difference converted to \<open>float\<close>.
\<close>

definition dequantize :: "rat \<Rightarrow> int \<Rightarrow> 8 word \<Rightarrow> rat option" where
  "dequantize output_scale output_zero_point raw_prediction =
     float_mul (float_of_int (wrap_int (sint raw_prediction - output_zero_point))) output_scale"

text \<open>
  \<open>int predicted_integer = round(predicted_float)\<close> followed by the two clamping
  statements.  The conversion to \<open>int\<close> comes before the clamping.
\<close>

definition clamp_prediction :: "env \<Rightarrow> rat option \<Rightarrow> int" where
  "clamp_prediction e predicted_float =
     (let r = float_to_int e (round_float predicted_float);
          p = (if r < - 128 then - 128 else r);
          p = (if p > 127 then 127 else p)
      in p)"

subsection \<open>\<open>measure_and_run_model\<close>\<close>

definition measure_and_run_model :: "env \<Rightarrow> state \<Rightarrow> result" where
  "measure_and_run_model e s =
     (let t0 = micros e (clock_reads s);
          t1 = micros e (clock_reads s + 1);
          s1 = emit [Println ''Running inference...''] (s\<lparr>clock_reads := clock_reads s + 2\<rparr>)
      in case input_tensor s1 of
           None \<Rightarrow> Inl (NullTensor, s1)
         | Some it \<Rightarrow>
             if \<not> type_is_int8 it
             then Inr (emit [Println ''Error: Expected int8 tensors!''] s1)
             else
               (case output_tensor s1 of
                  None \<Rightarrow> Inl (NullTensor, s1)
                | Some ot \<Rightarrow>
                    if \<not> type_is_int8 ot
                    then Inr (emit [Println ''Error: Expected int8 tensors!''] s1)
                    else
                      (case quantize_loop e (params_scale it) (params_zero_point it)
                              (input_array s1) (data_int8 it) 0 of
                         None \<Rightarrow> Inl (TensorOutOfBounds, s1)
                       | Some dat \<Rightarrow>
                           (let s2 = emit [Invoke dat]
                                       (s1\<lparr>input_tensor := Some (it\<lparr>data_int8 := dat\<rparr>)\<rparr>)
                            in case invoke e dat of
                                 None \<Rightarrow> Inr (emit [Println ''Model inference failed!''] s2)
                               | Some out \<Rightarrow>
                                   (let t2 = micros e (clock_reads s2);
                                        s3 = s2\<lparr>output_tensor := Some (ot\<lparr>data_int8 := out\<rparr>),
                                                clock_reads := clock_reads s2 + 1\<rparr>
                                    in case out of
                                         [] \<Rightarrow> Inl (TensorOutOfBounds, s3)
                                       | raw_prediction # _ \<Rightarrow>
                                           (let predicted_float =
                                                  dequantize (params_scale ot) (params_zero_point ot)
                                                    raw_prediction;
                                                predicted_integer = clamp_prediction e predicted_float
                                            in Inr (emit
                                                 [Print ''Raw dequantized prediction (float): '',
                                                  PrintlnFloat predicted_float,
                                                  Print ''Predicted next integer value: '',
                                                  PrintlnInt predicted_integer,
                                                  Print ''Printing time (us): '',
                                                  PrintlnULong (t1 - t0),
                                                  Print ''Inference time (us): '',
                                                  PrintlnULong (t2 - t1)] s3)))))))"

subsection \<open>\<open>process_input\<close>\<close>

text \<open>
  \<open>string_to_array\<close> receives the line buffer as a C string: the bytes before the first
  NUL.  When none of the 64 bytes of the buffer is NUL, the scan goes on in the memory
  behind the buffer, up to the first NUL there.  \<open>strtok\<close> also overwrites the comma
  after each token with NUL; \<open>loop\<close> clears the whole buffer as soon as
  \<open>process_input\<close> returns, so the model leaves the buffer as it is, and it does not
  follow the memory behind the buffer.
\<close>

definition c_string :: "env \<Rightarrow> state \<Rightarrow> string" where
  "c_string e s =
     (if NUL \<in> set (in_str_buff s) then takeWhile (\<lambda>c. c \<noteq> NUL) (in_str_buff s)
      else in_str_buff s @ takeWhile (\<lambda>c. c \<noteq> NUL) (memory_behind_buffer e s))"

definition process_input :: "env \<Rightarrow> state \<Rightarrow> result" where
  "process_input e s =
     (let (num_values, arr) = string_to_array e (c_string e s) (input_array s);
          s1 = s\<lparr>input_array := arr\<rparr>
      in if num_values \<noteq> INT_ARRAY_SIZE
         then Inr (emit [Println ''Error: Please enter exactly 7 integers.''] s1)
         else measure_and_run_model e s1)"

subsection \<open>\<open>loop\<close>\<close>

text \<open>\<open>memset(in_str_buff, 0, INPUT_BUFFER_SIZE); in_buff_idx = 0;\<close>\<close>

definition clear_buffer :: "state \<Rightarrow> state" where
  "clear_buffer s = s\<lparr>in_str_buff := replicate INPUT_BUFFER_SIZE NUL, in_buff_idx := 0\<rparr>"

text \<open>The echo and \<open>in_str_buff[in_buff_idx++] = received_char\<close>.\<close>

definition store_byte :: "char \<Rightarrow> state \<Rightarrow> result" where
  "store_byte received_char s =
     (let s1 = emit [Echo received_char] s
      in if in_buff_idx s1 < INPUT_BUFFER_SIZE
         then Inr (s1\<lparr>in_str_buff := (in_str_buff s1)[in_buff_idx s1 := received_char],
                      in_buff_idx := in_buff_idx s1 + 1\<rparr>)
         else Inl (BufferWriteOutOfBounds, s1))"

text \<open>
  One pass of \<open>loop\<close>; \<open>available\<close> is the byte \<open>Serial.read()\<close> returns, or \<open>None\<close>
  when \<open>Serial.available()\<close> is zero.
\<close>

definition loop :: "env \<Rightarrow> char option \<Rightarrow> state \<Rightarrow> result" where
  "loop e available s =
     (case available of
        None \<Rightarrow> Inr s
      | Some received_char \<Rightarrow>
          (case store_byte received_char s of
             Inl h \<Rightarrow> Inl h
           | Inr s1 \<Rightarrow>
               if received_char = CR
               then (case process_input e (emit [Println []] s1) of
                       Inl h \<Rightarrow> Inl h
                     | Inr s2 \<Rightarrow> Inr (clear_buffer s2))
               else if in_buff_idx s1 \<ge> INPUT_BUFFER_SIZE then Inr (clear_buffer s1)
               else Inr s1))"

text \<open>The passes of \<open>loop\<close> that receive the bytes of a sequence, one byte each.\<close>

fun run :: "env \<Rightarrow> string \<Rightarrow> state \<Rightarrow> result" where
  "run e [] s = Inr s"
| "run e (c # cs) s = (case loop e (Some c) s of Inl h \<Rightarrow> Inl h | Inr s' \<Rightarrow> run e cs s')"


subsection \<open>Concrete environments\<close>

text \<open>
  Tensor parameters of the scale 0.1 (the \<open>float\<close> nearest to it) and zero point 0, an
  interpreter that answers with its last input value, and a clock that advances by 100
  per reading.  For what C++ leaves open, the conventions of a 64-bit x86 host with the
  GNU C library: \<open>atoi\<close> converts through a 64-bit \<open>long\<close> that saturates and keeps
  the low 32 bits, a \<open>float\<close> that no \<open>int\<close> can hold converts to the least \<open>int\<close>,
  and a NUL byte lies right behind the line buffer.
\<close>

definition demo_tensor :: tensor where
  "demo_tensor =
     \<lparr>type_is_int8 = True, params_scale = 13421773 / 134217728, params_zero_point = 0,
      data_int8 = replicate 7 0\<rparr>"

definition demo_env :: env where
  "demo_env =
     \<lparr>model_version = 3, TFLITE_SCHEMA_VERSION = 3, allocate_ok = True,
      input0 = demo_tensor, output0 = demo_tensor\<lparr>data_int8 := [0]\<rparr>,
      invoke = (\<lambda>d. Some [last d]), micros = (\<lambda>k. of_nat (100 * k)),
      atoi_overflow = (\<lambda>v. max (- (2 ^ 63)) (min (2 ^ 63 - 1) v)),
      float_to_int_overflow = (\<lambda>y. - (2 ^ 31)),
      memory_behind_buffer = (\<lambda>s. [])\<rparr>"

text \<open>The same with a tensor allocation that fails.\<close>

definition failing_env :: env where
  "failing_env = demo_env\<lparr>allocate_ok := False\<rparr>"

text \<open>The same with a given output scale and an interpreter that answers with a given value.\<close>

definition output_env :: "rat \<Rightarrow> 8 word \<Rightarrow> env" where
  "output_env sc r =
     demo_env\<lparr>output0 := demo_tensor\<lparr>params_scale := sc, data_int8 := [0]\<rparr>,
              invoke := (\<lambda>d. Some [r])\<rparr>"

text \<open>
  The same with given parameters for both tensors and an interpreter that answers with its
  first input value.
\<close>

definition echo_env :: "rat \<Rightarrow> int \<Rightarrow> env" where
  "echo_env sc zp =
     demo_env\<lparr>input0 := demo_tensor\<lparr>params_scale := sc, params_zero_point := zp\<rparr>,
              output0 := demo_tensor\<lparr>params_scale := sc, params_zero_point := zp,
                                     data_int8 := [0]\<rparr>,
              invoke := (\<lambda>d. Some [hd d])\<rparr>"

text \<open>The same with the byte \<open>8\<close> and then a NUL behind the line buffer.\<close>

definition spill_env :: env where
  "spill_env = demo_env\<lparr>memory_behind_buffer := (\<lambda>s. ''8'')\<rparr>"

subsection \<open>Notions the properties are stated with\<close>

text \<open>
  What a result holds: the state (the one reached when a fault ended the run), the fault if
  any, the trace and the integer array.
\<close>

definition state_of :: "result \<Rightarrow> state" where
  "state_of r = (case r of Inl (f, s) \<Rightarrow> s | Inr s \<Rightarrow> s)"

definition fault_of :: "result \<Rightarrow> fault option" where
  "fault_of r = (case r of Inl (f, s) \<Rightarrow> Some f | Inr s \<Rightarrow> None)"

definition trace_of :: "result \<Rightarrow> event list" where
  "trace_of r = trace (state_of r)"

definition array_of :: "result \<Rightarrow> int list" where
  "array_of r = input_array (state_of r)"

text \<open>
  All the tokens \<open>strtok\<close> would deliver for a string, had the loop of
  \<open>string_to_array\<close> no \<open>break\<close>.
\<close>

function tokens :: "string \<Rightarrow> string list" where
  "tokens s = (case strtok s of None \<Rightarrow> [] | Some (tok, rest) \<Rightarrow> tok # tokens rest)"
  by pat_completeness auto
termination
proof (relation "measure length", goal_cases)
  case 1
  show ?case by simp
next
  case (2 s p tok rest)
  define t where "t = dropWhile is_comma s"
  from 2 have ne: "t \<noteq> []" and r: "rest = drop 1 (dropWhile (\<lambda>c. \<not> is_comma c) t)"
    by (auto simp: strtok_def t_def Let_def split: if_splits)
  have "length (dropWhile (\<lambda>c. \<not> is_comma c) t) \<le> length t"
    by (rule length_dropWhile_le)
  moreover have "length t \<le> length s"
    unfolding t_def by (rule length_dropWhile_le)
  ultimately have "length rest < length s"
    using ne r by (cases "dropWhile (\<lambda>c. \<not> is_comma c) t") (auto simp: Suc_le_eq)
  then show ?case by simp
qed

declare tokens.simps [simp del]

text \<open>
  The fields of a comma-separated string, empty ones included: \<open>n\<close> commas separate
  \<open>n + 1\<close> fields.
\<close>

fun split_commas :: "string \<Rightarrow> string list" where
  "split_commas [] = [[]]"
| "split_commas (c # cs) =
     (if is_comma c then [] # split_commas cs
      else (c # hd (split_commas cs)) # tl (split_commas cs))"

text \<open>
  A token that is a base-10 signed integer: an optional sign and then digits only, at
  least one.
\<close>

definition valid_integer :: "string \<Rightarrow> bool" where
  "valid_integer s =
     (case s of
        [] \<Rightarrow> False
      | c # r \<Rightarrow>
          if c = CHR ''-'' \<or> c = CHR ''+'' then r \<noteq> [] \<and> list_all isdigit r
          else list_all isdigit s)"

text \<open>
  The number a string of decimal digits denotes: its last digit counts once, the one
  before it ten times, and so on.
\<close>

fun decimal_rev :: "string \<Rightarrow> int" where
  "decimal_rev [] = 0"
| "decimal_rev (d # ds) = digit_val d + 10 * decimal_rev ds"

definition decimal :: "string \<Rightarrow> int" where
  "decimal ds = decimal_rev (rev ds)"

text \<open>
  A token taken apart: white space \<open>ws\<close>, a sign \<open>sg\<close> (empty, minus or plus), the
  digits \<open>ds\<close> and the rest, each part as long as it can be.
\<close>

definition token_parts :: "string \<Rightarrow> string \<Rightarrow> string \<Rightarrow> string \<Rightarrow> bool" where
  "token_parts ws sg ds rest \<longleftrightarrow>
     list_all isspace ws \<and> (sg = [] \<or> sg = ''-'' \<or> sg = ''+'') \<and> list_all isdigit ds \<and>
     (sg @ ds @ rest = [] \<or> \<not> isspace (hd (sg @ ds @ rest))) \<and>
     (sg = [] \<and> ds = [] \<longrightarrow> rest = [] \<or> (hd rest \<noteq> CHR ''-'' \<and> hd rest \<noteq> CHR ''+'')) \<and>
     (rest = [] \<or> \<not> isdigit (hd rest))"

text \<open>
  An integer \<open>n\<close> that is the rational \<open>v\<close> rounded to the nearest integer, a half
  rounded away from zero.
\<close>

definition nearest_integer :: "rat \<Rightarrow> int \<Rightarrow> bool" where
  "nearest_integer v n \<longleftrightarrow>
     \<bar>of_int n - v\<bar> \<le> 1 / 2 \<and> (\<bar>of_int n - v\<bar> = 1 / 2 \<longrightarrow> \<bar>v\<bar> < \<bar>of_int n\<bar>)"

text \<open>
  The line buffer as \<open>loop\<close> keeps it between two passes: 64 bytes long, the cursor
  inside it, and NUL from the cursor on.
\<close>

definition buffer_ok :: "state \<Rightarrow> bool" where
  "buffer_ok s \<longleftrightarrow>
     length (in_str_buff s) = INPUT_BUFFER_SIZE \<and>
     in_buff_idx s < INPUT_BUFFER_SIZE \<and>
     drop (in_buff_idx s) (in_str_buff s) = replicate (INPUT_BUFFER_SIZE - in_buff_idx s) NUL"

definition buffer_empty :: "state \<Rightarrow> bool" where
  "buffer_empty s \<longleftrightarrow> in_str_buff s = replicate INPUT_BUFFER_SIZE NUL \<and> in_buff_idx s = 0"

text \<open>
  What \<open>process_input\<close> does with a given string in place of the one the line buffer
  holds, and the clearing of the buffer that follows it in \<open>loop\<close> when it returns.
\<close>

definition line_outcome :: "env \<Rightarrow> string \<Rightarrow> state \<Rightarrow> result" where
  "line_outcome e line s =
     (let (num_values, arr) = string_to_array e line (input_array s);
          s1 = s\<lparr>input_array := arr\<rparr>
      in if num_values \<noteq> INT_ARRAY_SIZE
         then Inr (emit [Println ''Error: Please enter exactly 7 integers.''] s1)
         else measure_and_run_model e s1)"

definition then_clear :: "result \<Rightarrow> result" where
  "then_clear r = (case r of Inl h \<Rightarrow> Inl h | Inr s \<Rightarrow> Inr (clear_buffer s))"

text \<open>
  The state in which \<open>loop\<close> calls \<open>process_input\<close> when the carriage return arrives
  after the bytes \<open>l\<close>, received in state \<open>s\<close> with the buffer empty: the bytes and the
  carriage return are echoed, the line end is printed, and the buffer holds them all.
\<close>

definition line_state :: "string \<Rightarrow> state \<Rightarrow> state" where
  "line_state l s =
     (emit (map Echo (l @ [CR]) @ [Println []]) s)
       \<lparr>in_str_buff := l @ [CR] @ replicate (INPUT_BUFFER_SIZE - length l - 1) NUL,
        in_buff_idx := length l + 1\<rparr>"

text \<open>
  The string \<open>process_input\<close> hands to \<open>string_to_array\<close> when the byte received in
  state \<open>s\<close> is the carriage return: the C string in the buffer after the byte has been
  stored.
\<close>

definition tokenizer_input :: "env \<Rightarrow> state \<Rightarrow> string option" where
  "tokenizer_input e s =
     (case store_byte CR s of Inl h \<Rightarrow> None | Inr s1 \<Rightarrow> Some (c_string e s1))"

definition line_handed :: "env \<Rightarrow> string \<Rightarrow> string option" where
  "line_handed e l =
     (case run e l (setup_sketch e) of Inl h \<Rightarrow> None | Inr s \<Rightarrow> tokenizer_input e s)"

text \<open>
  A start-up that succeeds, an environment whose input tensor holds at least seven values
  and whose interpreter leaves at least one output value, and the states in which both
  tensor pointers are set and the input tensor is that large.
\<close>

definition started :: "env \<Rightarrow> bool" where
  "started e \<longleftrightarrow> model_version e = TFLITE_SCHEMA_VERSION e \<and> allocate_ok e"

definition well_formed :: "env \<Rightarrow> bool" where
  "well_formed e \<longleftrightarrow>
     INT_ARRAY_SIZE \<le> length (data_int8 (input0 e)) \<and> (\<forall>d. invoke e d \<noteq> Some [])"

definition tensors_ok :: "state \<Rightarrow> bool" where
  "tensors_ok s \<longleftrightarrow>
     (\<exists>it. input_tensor s = Some it \<and> INT_ARRAY_SIZE \<le> length (data_int8 it)) \<and>
     output_tensor s \<noteq> None"

text \<open>
  The lines a sketch whose start-up failed can print, and the states of such a sketch: both
  tensor pointers null, and nothing in the trace but echoed bytes and those lines.
\<close>

definition startup_lines :: "string set" where
  "startup_lines =
     {''TFLM Sine Wave Prediction Model Initializing...'',
      ''Model schema version mismatch!'', ''Failed to allocate tensors!'',
      [], ''Error: Please enter exactly 7 integers.'', ''Running inference...''}"

definition not_ready :: "state \<Rightarrow> bool" where
  "not_ready s \<longleftrightarrow>
     input_tensor s = None \<and> output_tensor s = None \<and>
     set (trace s) \<subseteq> range Echo \<union> Println ` startup_lines"

text \<open>Every integer prediction reported in a trace lies in the range of \<open>int8_t\<close>.\<close>

definition prints_in_range :: "event list \<Rightarrow> bool" where
  "prints_in_range es \<longleftrightarrow> (\<forall>p. PrintlnInt p \<in> set es \<longrightarrow> - 128 \<le> p \<and> p \<le> 127)"


section \<open>Auxiliary facts\<close>

subsection \<open>The tokenizer\<close>

lemma string_to_array_loop_tokens:
  assumes "n < INT_ARRAY_SIZE" "length arr = INT_ARRAY_SIZE"
  shows "string_to_array_loop e (strtok s) arr n =
           (min INT_ARRAY_SIZE (n + length (tokens s)),
            take n arr @ map (atoi e) (take (INT_ARRAY_SIZE - n) (tokens s))
              @ drop (min INT_ARRAY_SIZE (n + length (tokens s))) arr)"
  using assms
proof (induction s arbitrary: arr n rule: tokens.induct)
  case (1 s)
  show ?case
  proof (cases "strtok s")
    case None
    then show ?thesis
      using "1.prems" by (simp add: string_to_array_loop.simps tokens.simps)
  next
    case (Some p)
    obtain tok rest where p: "p = (tok, rest)" by (cases p)
    have tk: "tokens s = tok # tokens rest"
      using Some p by (simp add: tokens.simps)
    show ?thesis
    proof (cases "n + 1 \<ge> INT_ARRAY_SIZE")
      case True
      with "1.prems" have n6: "n = 6" by (simp add: INT_ARRAY_SIZE_def)
      have "arr[n := atoi e tok] = take n arr @ [atoi e tok]"
        using "1.prems" n6 by (simp add: upd_conv_take_nth_drop INT_ARRAY_SIZE_def)
      then show ?thesis
        using Some p True "1.prems" n6 tk
        by (simp add: string_to_array_loop.simps INT_ARRAY_SIZE_def)
    next
      case False
      then have n': "n + 1 < INT_ARRAY_SIZE" by simp
      have len': "length (arr[n := atoi e tok]) = INT_ARRAY_SIZE" using "1.prems" by simp
      have IH: "string_to_array_loop e (strtok rest) (arr[n := atoi e tok]) (n + 1) =
           (min INT_ARRAY_SIZE (n + 1 + length (tokens rest)),
            take (n + 1) (arr[n := atoi e tok]) @ map (atoi e) (take (INT_ARRAY_SIZE - (n + 1)) (tokens rest))
              @ drop (min INT_ARRAY_SIZE (n + 1 + length (tokens rest))) (arr[n := atoi e tok]))"
        using "1.IH"[OF Some p[symmetric] n' len'] .
      have t1: "take (n + 1) (arr[n := atoi e tok]) = take n arr @ [atoi e tok]"
        using "1.prems" n' by (simp add: take_Suc_conv_app_nth)
      have t2: "drop (min INT_ARRAY_SIZE (n + 1 + length (tokens rest))) (arr[n := atoi e tok]) =
                drop (min INT_ARRAY_SIZE (n + 1 + length (tokens rest))) arr"
        using n' by (simp add: drop_update_cancel)
      have t3: "take (INT_ARRAY_SIZE - n) (tok # tokens rest) = tok # take (INT_ARRAY_SIZE - (n + 1)) (tokens rest)"
      proof -
        have "INT_ARRAY_SIZE - n = Suc (INT_ARRAY_SIZE - (n + 1))" using n' by simp
        then show ?thesis by simp
      qed
      have "string_to_array_loop e (strtok s) arr n =
            string_to_array_loop e (strtok rest) (arr[n := atoi e tok]) (n + 1)"
        using Some p False by (subst string_to_array_loop.simps) (simp add: Let_def)
      then show ?thesis
        unfolding IH t1 t2 tk t3 by simp
    qed
  qed
qed

lemma string_to_array_tokens:
  assumes "length arr = INT_ARRAY_SIZE"
  shows "string_to_array e s arr =
           (min INT_ARRAY_SIZE (length (tokens s)),
            map (atoi e) (take INT_ARRAY_SIZE (tokens s))
              @ drop (min INT_ARRAY_SIZE (length (tokens s))) arr)"
  unfolding string_to_array_def
  using string_to_array_loop_tokens[of 0 arr e s] assms
  by (simp add: INT_ARRAY_SIZE_def)


lemma split_commas_not_Nil: "split_commas s \<noteq> []"
  by (induction s) auto

lemma hd_split_commas: "hd (split_commas s) = takeWhile (\<lambda>c. \<not> is_comma c) s"
  by (induction s) auto

lemma tl_split_commas:
  "tl (split_commas s) =
     (if dropWhile (\<lambda>c. \<not> is_comma c) s = [] then []
      else split_commas (drop 1 (dropWhile (\<lambda>c. \<not> is_comma c) s)))"
  by (induction s) auto

lemma filter_split_commas_dropWhile:
  "filter (\<lambda>f. f \<noteq> []) (split_commas (dropWhile is_comma s)) =
   filter (\<lambda>f. f \<noteq> []) (split_commas s)"
  by (induction s) auto

lemma tokens_split_commas: "tokens s = filter (\<lambda>f. f \<noteq> []) (split_commas s)"
proof (induction s rule: tokens.induct)
  case (1 s)
  define t where "t = dropWhile is_comma s"
  show ?case
  proof (cases "strtok s")
    case None
    then have "t = []" by (auto simp: strtok_def t_def Let_def split: if_splits)
    moreover have "filter (\<lambda>f. f \<noteq> []) (split_commas s) = filter (\<lambda>f. f \<noteq> []) (split_commas t)"
      unfolding t_def by (rule filter_split_commas_dropWhile[symmetric])
    ultimately have "filter (\<lambda>f. f \<noteq> []) (split_commas s) = []"
      by simp
    then show ?thesis using None by (simp add: tokens.simps)
  next
    case (Some p)
    obtain tok rest where p: "p = (tok, rest)" by (cases p)
    from Some p have ne: "t \<noteq> []"
      and tok: "tok = takeWhile (\<lambda>c. \<not> is_comma c) t"
      and rest: "rest = drop 1 (dropWhile (\<lambda>c. \<not> is_comma c) t)"
      by (auto simp: strtok_def t_def Let_def split: if_splits)
    have "\<not> is_comma (hd t)"
      using ne hd_dropWhile[of is_comma s] by (simp add: t_def)
    then have tok_ne: "tok \<noteq> []"
      using ne tok by (cases t) auto
    have sp: "split_commas t = tok # tl (split_commas t)"
      using split_commas_not_Nil[of t] hd_split_commas[of t] tok
      by (cases "split_commas t") auto
    have tl: "filter (\<lambda>f. f \<noteq> []) (tl (split_commas t)) =
              filter (\<lambda>f. f \<noteq> []) (split_commas rest)"
    proof (cases "dropWhile (\<lambda>c. \<not> is_comma c) t = []")
      case True
      show ?thesis unfolding tl_split_commas rest True by simp
    next
      case False
      then show ?thesis unfolding tl_split_commas rest by auto
    qed
    have "filter (\<lambda>f. f \<noteq> []) (split_commas s) = filter (\<lambda>f. f \<noteq> []) (split_commas t)"
      unfolding t_def by (rule filter_split_commas_dropWhile[symmetric])
    also have "\<dots> = filter (\<lambda>f. f \<noteq> []) (tok # tl (split_commas t))"
      using sp by simp
    also have "\<dots> = tok # filter (\<lambda>f. f \<noteq> []) (split_commas rest)"
      using tok_ne tl by simp
    also have "\<dots> = tok # tokens rest"
      using "1.IH"[OF Some p[symmetric]] by simp
    finally show ?thesis using Some p by (simp add: tokens.simps)
  qed
qed

subsection \<open>Results\<close>

lemma state_of_simps [simp]:
  "state_of (Inr s) = s" "state_of (Inl (f, s)) = s"
  by (simp_all add: state_of_def)

lemma fault_of_simps [simp]:
  "fault_of (Inr s) = None" "fault_of (Inl (f, s)) = Some f"
  by (simp_all add: fault_of_def)

lemma fault_of_None: "fault_of r = None \<longleftrightarrow> (\<exists>s. r = Inr s)"
  by (cases r) (auto simp: fault_of_def)

lemma then_clear_simps [simp]:
  "then_clear (Inr s) = Inr (clear_buffer s)" "then_clear (Inl h) = Inl h"
  by (simp_all add: then_clear_def)

lemma then_clear_Inr: "then_clear r = Inr s' \<longleftrightarrow> (\<exists>s. r = Inr s \<and> s' = clear_buffer s)"
  by (cases r) auto

lemma fault_of_then_clear [simp]: "fault_of (then_clear r) = fault_of r"
  by (cases r) (auto simp: fault_of_def)

lemma trace_of_then_clear [simp]: "trace_of (then_clear r) = trace_of r"
  by (cases r) (auto simp: trace_of_def clear_buffer_def)

lemma array_of_then_clear [simp]: "array_of (then_clear r) = array_of r"
  by (cases r) (auto simp: array_of_def clear_buffer_def)

subsection \<open>The line buffer\<close>

lemma measure_and_run_model_frame:
  "in_str_buff (state_of (measure_and_run_model e s)) = in_str_buff s \<and>
   in_buff_idx (state_of (measure_and_run_model e s)) = in_buff_idx s \<and>
   input_array (state_of (measure_and_run_model e s)) = input_array s"
  by (simp add: measure_and_run_model_def emit_def Let_def
      split: option.splits list.splits)


lemma process_input_line_outcome: "process_input e s = line_outcome e (c_string e s) s"
  by (simp add: process_input_def line_outcome_def)

lemma line_outcome_cases:
  obtains (few) n arr where "string_to_array e line (input_array s) = (n, arr)"
      "n \<noteq> INT_ARRAY_SIZE"
      "line_outcome e line s =
         Inr (emit [Println ''Error: Please enter exactly 7 integers.''] (s\<lparr>input_array := arr\<rparr>))"
  | (run) arr where "string_to_array e line (input_array s) = (INT_ARRAY_SIZE, arr)"
      "line_outcome e line s = measure_and_run_model e (s\<lparr>input_array := arr\<rparr>)"
proof -
  obtain n arr where sa: "string_to_array e line (input_array s) = (n, arr)"
    by (cases "string_to_array e line (input_array s)")
  show thesis
  proof (cases "n \<noteq> INT_ARRAY_SIZE")
    case True
    then show thesis using sa few by (simp add: line_outcome_def)
  next
    case False
    then show thesis using sa run by (simp add: line_outcome_def)
  qed
qed





lemma buffer_empty_ok: "buffer_empty s \<Longrightarrow> buffer_ok s"
  by (simp add: buffer_empty_def buffer_ok_def INPUT_BUFFER_SIZE_def)

lemma clear_buffer_empty: "buffer_empty (clear_buffer s)"
  by (simp add: buffer_empty_def clear_buffer_def)

text \<open>The pass of \<open>loop\<close> that receives the carriage return.\<close>

lemma loop_CR_eq:
  assumes "in_buff_idx s < INPUT_BUFFER_SIZE"
  shows "loop e (Some CR) s =
           then_clear (process_input e
             ((emit [Echo CR, Println []] s)
                \<lparr>in_str_buff := (in_str_buff s)[in_buff_idx s := CR],
                 in_buff_idx := in_buff_idx s + 1\<rparr>))"
proof -
  have st: "store_byte CR s =
              Inr ((emit [Echo CR] s)\<lparr>in_str_buff := (in_str_buff s)[in_buff_idx s := CR],
                                        in_buff_idx := in_buff_idx s + 1\<rparr>)"
    using assms by (simp add: store_byte_def emit_def Let_def)
  have eq: "emit [Println []]
              ((emit [Echo CR] s)\<lparr>in_str_buff := (in_str_buff s)[in_buff_idx s := CR],
                                    in_buff_idx := in_buff_idx s + 1\<rparr>) =
            (emit [Echo CR, Println []] s)
                \<lparr>in_str_buff := (in_str_buff s)[in_buff_idx s := CR],
                 in_buff_idx := in_buff_idx s + 1\<rparr>"
    by (simp add: emit_def)
  show ?thesis
    by (simp only: loop_def option.case st sum.case HOL.simp_thms if_True eq then_clear_def)
qed

lemma loop_CR:
  assumes "loop e (Some CR) s = Inr s'"
  shows "buffer_empty s'"
  using assms
  by (auto simp: loop_def clear_buffer_empty split: sum.splits)

lemma loop_plain:
  assumes "c \<noteq> CR" "in_buff_idx s < INPUT_BUFFER_SIZE"
  shows "loop e (Some c) s =
           Inr (let s1 = (emit [Echo c] s)\<lparr>in_str_buff := (in_str_buff s)[in_buff_idx s := c],
                                            in_buff_idx := in_buff_idx s + 1\<rparr>
                in if in_buff_idx s + 1 \<ge> INPUT_BUFFER_SIZE then clear_buffer s1 else s1)"
  using assms by (simp add: loop_def store_byte_def emit_def Let_def)

lemma loop_buffer_ok:
  assumes "buffer_ok s" "loop e a s = Inr s'"
  shows "buffer_ok s'"
proof (cases a)
  case None
  with assms show ?thesis by (simp add: loop_def)
next
  case (Some c)
  show ?thesis
  proof (cases "c = CR")
    case True
    with assms Some show ?thesis by (auto dest!: loop_CR buffer_empty_ok)
  next
    case False
    have i: "in_buff_idx s < INPUT_BUFFER_SIZE" using assms(1) by (simp add: buffer_ok_def)
    show ?thesis
    proof (cases "in_buff_idx s + 1 \<ge> INPUT_BUFFER_SIZE")
      case True
      then show ?thesis
        using assms(2) Some loop_plain[OF False i, of e]
        by (auto simp: Let_def intro!: buffer_empty_ok clear_buffer_empty)
    next
      case F: False
      have "drop (Suc (in_buff_idx s)) (in_str_buff s) =
            replicate (INPUT_BUFFER_SIZE - Suc (in_buff_idx s)) NUL"
      proof -
        have "drop (Suc (in_buff_idx s)) (in_str_buff s) = drop 1 (drop (in_buff_idx s) (in_str_buff s))"
          by simp
        also have "\<dots> = drop 1 (replicate (INPUT_BUFFER_SIZE - in_buff_idx s) NUL)"
          using assms(1) by (simp add: buffer_ok_def)
        finally show ?thesis by simp
      qed
      then show ?thesis
        using assms Some F loop_plain[OF False i, of e]
        by (auto simp: Let_def buffer_ok_def emit_def)
    qed
  qed
qed


lemma run_append:
  "run e (as @ bs) s = (case run e as s of Inl h \<Rightarrow> Inl h | Inr s' \<Rightarrow> run e bs s')"
  by (induction as arbitrary: s) (auto split: sum.splits)

lemma run_snoc:
  "run e (bs @ [c]) s = (case run e bs s of Inl h \<Rightarrow> Inl h | Inr s1 \<Rightarrow> loop e (Some c) s1)"
  by (simp add: run_append split: sum.splits)



lemma setup_sketch_buffer_empty: "buffer_empty (setup_sketch e)"
  by (simp add: setup_sketch_def buffer_empty_def initial_state_def emit_def Let_def)

text \<open>Feeding bytes that are not CR into a buffer that they do not fill.\<close>

lemma run_fill:
  assumes "buffer_ok s" "CR \<notin> set l" "in_buff_idx s + length l < INPUT_BUFFER_SIZE"
  shows "run e l s =
           Inr ((emit (map Echo l) s)
                  \<lparr>in_str_buff := take (in_buff_idx s) (in_str_buff s) @ l @
                       replicate (INPUT_BUFFER_SIZE - in_buff_idx s - length l) NUL,
                   in_buff_idx := in_buff_idx s + length l\<rparr>)"
  using assms
proof (induction l arbitrary: s)
  case Nil
  have "take (in_buff_idx s) (in_str_buff s) @ replicate (INPUT_BUFFER_SIZE - in_buff_idx s) NUL
        = in_str_buff s"
    using Nil.prems(1) append_take_drop_id[of "in_buff_idx s" "in_str_buff s"]
    by (simp add: buffer_ok_def)
  then show ?case by (simp add: emit_def)
next
  case (Cons c cs)
  have c: "c \<noteq> CR" and cs: "CR \<notin> set cs" using Cons.prems(2) by auto
  have i: "in_buff_idx s < INPUT_BUFFER_SIZE" using Cons.prems(3) by simp
  define s1 where "s1 = (emit [Echo c] s)\<lparr>in_str_buff := (in_str_buff s)[in_buff_idx s := c],
                                            in_buff_idx := in_buff_idx s + 1\<rparr>"
  have step: "loop e (Some c) s = Inr s1"
    using loop_plain[OF c i, of e] Cons.prems(3) by (simp add: s1_def Let_def)
  have ok1: "buffer_ok s1"
    using loop_buffer_ok[OF Cons.prems(1) step] .
  have idx1: "in_buff_idx s1 = in_buff_idx s + 1" by (simp add: s1_def)
  have len: "length (in_str_buff s) = INPUT_BUFFER_SIZE"
    using Cons.prems(1) by (simp add: buffer_ok_def)
  have tk: "take (Suc (in_buff_idx s)) ((in_str_buff s)[in_buff_idx s := c]) =
            take (in_buff_idx s) (in_str_buff s) @ [c]"
    using i len by (simp add: take_Suc_conv_app_nth)
  have "run e (c # cs) s = run e cs s1" using step by simp
  also have "\<dots> = Inr ((emit (map Echo cs) s1)
                  \<lparr>in_str_buff := take (in_buff_idx s1) (in_str_buff s1) @ cs @
                       replicate (INPUT_BUFFER_SIZE - in_buff_idx s1 - length cs) NUL,
                   in_buff_idx := in_buff_idx s1 + length cs\<rparr>)"
    using Cons.IH[OF ok1 cs] Cons.prems(3) idx1 by simp
  also have "\<dots> = Inr ((emit (map Echo (c # cs)) s)
                  \<lparr>in_str_buff := take (in_buff_idx s) (in_str_buff s) @ (c # cs) @
                       replicate (INPUT_BUFFER_SIZE - in_buff_idx s - length (c # cs)) NUL,
                   in_buff_idx := in_buff_idx s + length (c # cs)\<rparr>)"
    by (simp add: s1_def emit_def tk)
  finally show ?case .
qed

text \<open>Bytes that are not CR and fill the buffer exactly: the overflow branch clears it.\<close>

lemma run_overflow:
  assumes "buffer_ok s" "CR \<notin> set l" "in_buff_idx s + length l = INPUT_BUFFER_SIZE"
  shows "run e l s = Inr (clear_buffer (emit (map Echo l) s))"
proof -
  have "l \<noteq> []" using assms by (auto simp: buffer_ok_def)
  then obtain l' c where l: "l = l' @ [c]" by (metis rev_exhaust)
  have c: "c \<noteq> CR" and l': "CR \<notin> set l'" using assms(2) l by auto
  have lt: "in_buff_idx s + length l' < INPUT_BUFFER_SIZE" using assms(3) l by simp
  define s1 where "s1 = (emit (map Echo l') s)
                  \<lparr>in_str_buff := take (in_buff_idx s) (in_str_buff s) @ l' @
                       replicate (INPUT_BUFFER_SIZE - in_buff_idx s - length l') NUL,
                   in_buff_idx := in_buff_idx s + length l'\<rparr>"
  have r1: "run e l' s = Inr s1"
    using run_fill[OF assms(1) l' lt, of e] by (simp add: s1_def)
  have i1: "in_buff_idx s1 < INPUT_BUFFER_SIZE" using lt by (simp add: s1_def)
  have full: "in_buff_idx s1 + 1 \<ge> INPUT_BUFFER_SIZE" using assms(3) l by (simp add: s1_def)
  have "loop e (Some c) s1 = Inr (clear_buffer (emit (map Echo l) s))"
    using loop_plain[OF c i1, of e] full
    by (simp add: Let_def s1_def clear_buffer_def emit_def l)
  then show ?thesis
    using r1 by (simp add: l run_append)
qed

lemma emit_emit: "emit bs (emit as s) = emit (as @ bs) s"
  by (simp add: emit_def)

lemma emit_Nil: "emit [] s = s"
  by (simp add: emit_def)

lemma buffer_empty_emit: "buffer_empty (emit es s) = buffer_empty s"
  by (simp add: buffer_empty_def emit_def)

lemma clear_buffer_id: "buffer_empty s \<Longrightarrow> clear_buffer s = s"
  by (simp add: buffer_empty_def clear_buffer_def)

lemma run_junk:
  assumes "buffer_empty s" "CR \<notin> set junk" "length junk = INPUT_BUFFER_SIZE * k"
  shows "run e junk s = Inr (emit (map Echo junk) s)"
  using assms
proof (induction k arbitrary: junk s)
  case 0
  then show ?case by (simp add: emit_Nil)
next
  case (Suc k)
  define j1 where "j1 = take INPUT_BUFFER_SIZE junk"
  define j2 where "j2 = drop INPUT_BUFFER_SIZE junk"
  have junk: "junk = j1 @ j2" by (simp add: j1_def j2_def)
  have l1: "length j1 = INPUT_BUFFER_SIZE" using Suc.prems(3) by (simp add: j1_def)
  have l2: "length j2 = INPUT_BUFFER_SIZE * k" using Suc.prems(3) by (simp add: j2_def)
  have c1: "CR \<notin> set j1" and c2: "CR \<notin> set j2"
    using Suc.prems(2) junk by auto
  have i0: "in_buff_idx s = 0" using Suc.prems(1) by (simp add: buffer_empty_def)
  have e1: "buffer_empty (emit (map Echo j1) s)"
    using Suc.prems(1) by (simp add: buffer_empty_emit)
  have "run e j1 s = Inr (clear_buffer (emit (map Echo j1) s))"
    by (rule run_overflow[OF buffer_empty_ok[OF Suc.prems(1)] c1]) (simp add: i0 l1)
  then have r1: "run e j1 s = Inr (emit (map Echo j1) s)"
    using clear_buffer_id[OF e1] by simp
  have "run e j2 (emit (map Echo j1) s) = Inr (emit (map Echo j2) (emit (map Echo j1) s))"
    by (rule Suc.IH[OF e1 c2 l2])
  then show ?case
    using r1 by (simp add: junk run_append emit_emit)
qed

text \<open>
  A line received in full from an empty buffer: the carriage return is stored behind the
  bytes of the line, and \<open>process_input\<close> runs in the state \<open>line_state\<close>.
\<close>

lemma run_line_bytes:
  assumes "buffer_empty s" "CR \<notin> set l" "length l < INPUT_BUFFER_SIZE"
  shows "run e l s =
           Inr ((emit (map Echo l) s)
                  \<lparr>in_str_buff := l @ replicate (INPUT_BUFFER_SIZE - length l) NUL,
                   in_buff_idx := length l\<rparr>)"
  using run_fill[OF buffer_empty_ok[OF assms(1)] assms(2), of e] assms(1,3)
  by (simp add: buffer_empty_def)

lemma run_line:
  assumes "buffer_empty s" "CR \<notin> set l" "length l < INPUT_BUFFER_SIZE"
  shows "run e (l @ [CR]) s = then_clear (process_input e (line_state l s))"
proof -
  define s1 where "s1 = (emit (map Echo l) s)
                  \<lparr>in_str_buff := l @ replicate (INPUT_BUFFER_SIZE - length l) NUL,
                   in_buff_idx := length l\<rparr>"
  have r: "run e l s = Inr s1"
    using run_line_bytes[OF assms, of e] by (simp add: s1_def)
  have i1: "in_buff_idx s1 < INPUT_BUFFER_SIZE" using assms(3) by (simp add: s1_def)
  obtain n where n: "INPUT_BUFFER_SIZE - length l = Suc n"
    using assms(3) by (cases "INPUT_BUFFER_SIZE - length l") simp_all
  then have n': "INPUT_BUFFER_SIZE - length l - 1 = n" by simp
  have upd: "(l @ replicate (Suc n) NUL)[length l := CR] = l @ CR # replicate n NUL"
    by (simp add: list_update_append)
  have "(emit [Echo CR, Println []] s1)
                \<lparr>in_str_buff := (in_str_buff s1)[in_buff_idx s1 := CR],
                 in_buff_idx := in_buff_idx s1 + 1\<rparr> = line_state l s"
    by (simp add: s1_def line_state_def emit_def n n' upd)
  then have "loop e (Some CR) s1 = then_clear (process_input e (line_state l s))"
    using loop_CR_eq[OF i1, of e] by simp
  then show ?thesis using r by (simp add: run_snoc)
qed

lemma c_string_pad:
  assumes "NUL \<notin> set l" "0 < n" "in_str_buff s = l @ replicate n NUL"
  shows "c_string e s = l"
  using assms by (cases n) (simp_all add: c_string_def takeWhile_append)

lemma c_string_line_state:
  assumes "CR \<notin> set l" "NUL \<notin> set l" "length l + 2 \<le> INPUT_BUFFER_SIZE"
  shows "c_string e (line_state l s) = l @ [CR]"
proof -
  have "NUL \<notin> set (l @ [CR])" using assms(2) by (simp add: NUL_def CR_def)
  moreover have "0 < INPUT_BUFFER_SIZE - length l - 1" using assms(3) by simp
  moreover have "in_str_buff (line_state l s) =
                   (l @ [CR]) @ replicate (INPUT_BUFFER_SIZE - length l - 1) NUL"
    by (simp add: line_state_def)
  ultimately show ?thesis by (rule c_string_pad)
qed

lemma c_string_full_line:
  assumes "NUL \<notin> set l" "length l + 1 = INPUT_BUFFER_SIZE"
  shows "c_string e (line_state l s) =
           l @ [CR] @ takeWhile (\<lambda>c. c \<noteq> NUL) (memory_behind_buffer e (line_state l s))"
proof -
  have "INPUT_BUFFER_SIZE - length l - 1 = 0" using assms(2) by simp
  then have "in_str_buff (line_state l s) = l @ [CR]"
    by (simp add: line_state_def)
  moreover have "NUL \<notin> set (l @ [CR])" using assms(1) by (simp add: NUL_def CR_def)
  ultimately show ?thesis by (simp add: c_string_def)
qed

lemma tokenizer_input_fill:
  assumes "buffer_empty s" "CR \<notin> set l" "NUL \<notin> set l" "length l + 2 \<le> INPUT_BUFFER_SIZE"
  shows "\<exists>s1. run e l s = Inr s1 \<and> tokenizer_input e s1 = Some (l @ [CR])"
proof -
  define n where "n = INPUT_BUFFER_SIZE - length l - 1"
  have n: "INPUT_BUFFER_SIZE - length l = Suc n" and n1: "0 < n"
    using assms(4) by (simp_all add: n_def)
  define s1 where "s1 = (emit (map Echo l) s)
                  \<lparr>in_str_buff := l @ replicate (Suc n) NUL, in_buff_idx := length l\<rparr>"
  have lt: "length l < INPUT_BUFFER_SIZE" using assms(4) by simp
  have r: "run e l s = Inr s1"
    using run_line_bytes[OF assms(1,2) lt, of e] n by (simp add: s1_def)
  have upd: "(l @ replicate (Suc n) NUL)[length l := CR] = l @ CR # replicate n NUL"
    by (simp add: list_update_append)
  define s2 where "s2 = (emit [Echo CR] s1)\<lparr>in_str_buff := (l @ [CR]) @ replicate n NUL,
                                     in_buff_idx := length l + 1\<rparr>"
  have st: "store_byte CR s1 = Inr s2"
    using lt upd by (simp add: store_byte_def s1_def s2_def emit_def Let_def)
  have "NUL \<notin> set (l @ [CR])" using assms(3) by (simp add: NUL_def CR_def)
  then have "c_string e s2 = l @ [CR]"
    using n1 by (rule c_string_pad) (simp add: s2_def)
  then have "tokenizer_input e s1 = Some (l @ [CR])"
    using st by (simp add: tokenizer_input_def)
  with r show ?thesis by blast
qed

text \<open>
  A line of 63 bytes: the carriage return is the 64th byte, no NUL is left in the buffer,
  and the string handed to \<open>string_to_array\<close> goes on with the bytes behind the
  buffer.
\<close>

lemma run_full_line:
  assumes "buffer_empty s" "CR \<notin> set l" "NUL \<notin> set l" "length l + 1 = INPUT_BUFFER_SIZE"
  shows "run e (l @ [CR]) s =
           then_clear (line_outcome e
             (l @ [CR] @ takeWhile (\<lambda>c. c \<noteq> NUL) (memory_behind_buffer e (line_state l s)))
             (line_state l s))"
proof -
  have lt: "length l < INPUT_BUFFER_SIZE" using assms(4) by simp
  show ?thesis
    unfolding run_line[OF assms(1,2) lt] process_input_line_outcome
      c_string_full_line[OF assms(3,4)] ..
qed


subsection \<open>\<open>process_input\<close> and the token count\<close>

lemma line_outcome_few:
  assumes "length (input_array s) = INT_ARRAY_SIZE" "length (tokens line) < INT_ARRAY_SIZE"
  shows "line_outcome e line s =
           Inr (emit [Println ''Error: Please enter exactly 7 integers.'']
                  (s\<lparr>input_array := map (atoi e) (tokens line) @
                                       drop (length (tokens line)) (input_array s)\<rparr>))"
  using assms string_to_array_tokens[OF assms(1), of e line]
  by (simp add: line_outcome_def min_def)

lemma line_outcome_enough:
  assumes "length (input_array s) = INT_ARRAY_SIZE" "INT_ARRAY_SIZE \<le> length (tokens line)"
  shows "line_outcome e line s =
           measure_and_run_model e
             (s\<lparr>input_array := map (atoi e) (take INT_ARRAY_SIZE (tokens line))\<rparr>)"
  using assms string_to_array_tokens[OF assms(1), of e line]
  by (simp add: line_outcome_def min_def)

lemma process_input_few:
  assumes "c_string e s = line" "length (input_array s) = INT_ARRAY_SIZE"
    and "length (tokens line) < INT_ARRAY_SIZE"
  shows "process_input e s =
           Inr (emit [Println ''Error: Please enter exactly 7 integers.'']
                  (s\<lparr>input_array := map (atoi e) (tokens line) @
                                       drop (length (tokens line)) (input_array s)\<rparr>))"
  unfolding process_input_line_outcome assms(1) by (rule line_outcome_few[OF assms(2,3)])

lemma process_input_enough:
  assumes "c_string e s = line" "length (input_array s) = INT_ARRAY_SIZE"
    and "INT_ARRAY_SIZE \<le> length (tokens line)"
  shows "process_input e s =
           measure_and_run_model e
             (s\<lparr>input_array := map (atoi e) (take INT_ARRAY_SIZE (tokens line))\<rparr>)"
  unfolding process_input_line_outcome assms(1) by (rule line_outcome_enough[OF assms(2,3)])

lemma tokens_3: "tokens (''1,2,3'' @ [CR]) = [''1'', ''2'', ''3'' @ [CR]]"
  by code_simp

lemma tokens_8:
  "INT_ARRAY_SIZE \<le> length (tokens (''1,2,3,4,5,6,7,8'' @ [CR]))"
  "map (atoi e) (take INT_ARRAY_SIZE (tokens (''1,2,3,4,5,6,7,8'' @ [CR]))) = [1, 2, 3, 4, 5, 6, 7]"
  by code_simp+

lemma tokens_x:
  "tokens (''1,2,x,4,5,6,7'' @ [CR]) = [''1'', ''2'', ''x'', ''4'', ''5'', ''6'', ''7'' @ [CR]]"
  by code_simp

lemma atoi_examples:
  "atoi e ''1'' = 1" "atoi e ''2'' = 2" "atoi e ''3'' = 3" "atoi e ''4'' = 4" "atoi e ''5'' = 5"
  "atoi e ''6'' = 6" "atoi e ''7'' = 7" "atoi e [CHR ''6'', CR] = 6" "atoi e [CHR ''7'', CR] = 7"
  "atoi e ''x'' = 0" "atoi e [CR] = 0"
  by code_simp+

lemma tokens_6: "tokens (''1,,2,3,4,5,6'' @ [CR]) = [''1'', ''2'', ''3'', ''4'', ''5'', ''6'' @ [CR]]"
  by code_simp

lemma tokens_7:
  "INT_ARRAY_SIZE \<le> length (tokens (''1,,2,3,4,5,6,7'' @ [CR]))"
  "map (atoi e) (take INT_ARRAY_SIZE (tokens (''1,,2,3,4,5,6,7'' @ [CR]))) = [1, 2, 3, 4, 5, 6, 7]"
  by code_simp+

lemma tokens_trailing: "tokens (''1,2,3,4,5,6,'' @ [CR]) = [''1'', ''2'', ''3'', ''4'', ''5'', ''6'', [CR]]"
  by code_simp

subsection \<open>The value \<open>atoi\<close> returns\<close>

lemma wrap_int_range: "in_int_range (wrap_int i)"
proof -
  have "0 \<le> (i + 2 ^ 31) mod (2 ^ 32 :: int)" by simp
  moreover have "(i + 2 ^ 31) mod (2 ^ 32 :: int) < 2 ^ 32" by simp
  ultimately show ?thesis by (simp add: in_int_range_def wrap_int_def)
qed

lemma wrap_int_id: "in_int_range i \<Longrightarrow> wrap_int i = i"
  by (simp add: in_int_range_def wrap_int_def)

lemma atoi_in_int_range: "in_int_range (atoi e s)"
  by (simp add: atoi_def Let_def wrap_int_range)

lemma isdigit_not_sign: "isdigit c \<Longrightarrow> c \<noteq> CHR ''-'' \<and> c \<noteq> CHR ''+''"
  by (auto simp: isdigit_def)

lemma foldl_decimal_rev:
  "foldl (\<lambda>a c. 10 * a + digit_val c) 0 ds = decimal_rev (rev ds)"
  by (induction ds rule: rev_induct) simp_all

lemma digits_value_decimal:
  assumes "list_all isdigit ds" "rest = [] \<or> \<not> isdigit (hd rest)"
  shows "digits_value (ds @ rest) = decimal ds"
proof -
  have "takeWhile isdigit rest = []"
    using assms(2) by (cases rest) auto
  moreover have "takeWhile isdigit (ds @ rest) = ds @ takeWhile isdigit rest"
    using assms(1) by (intro takeWhile_append2) (simp add: list_all_iff)
  ultimately show ?thesis
    by (simp add: digits_value_def decimal_def foldl_decimal_rev)
qed

lemma atoi_token_parts:
  assumes "token_parts ws sg ds rest"
  shows "atoi e (ws @ sg @ ds @ rest) =
           (let v = (if sg = ''-'' then - decimal ds else decimal ds)
            in if in_int_range v then v else wrap_int (atoi_overflow e v))"
proof -
  from assms have ws: "list_all isspace ws" and sg: "sg = [] \<or> sg = ''-'' \<or> sg = ''+''"
    and ds: "list_all isdigit ds"
    and x: "sg @ ds @ rest = [] \<or> \<not> isspace (hd (sg @ ds @ rest))"
    and ns: "sg = [] \<and> ds = [] \<longrightarrow> rest = [] \<or> (hd rest \<noteq> CHR ''-'' \<and> hd rest \<noteq> CHR ''+'')"
    and r: "rest = [] \<or> \<not> isdigit (hd rest)"
    by (simp_all add: token_parts_def)
  define X where "X = sg @ ds @ rest"
  have "dropWhile isspace (ws @ X) = dropWhile isspace X"
    using ws by (intro dropWhile_append2) (simp add: list_all_iff)
  also have "\<dots> = X" using x unfolding X_def[symmetric] by (cases X) auto
  finally have dw: "dropWhile isspace (ws @ sg @ ds @ rest) = X" by (simp add: X_def)
  have dv: "digits_value (ds @ rest) = decimal ds" by (rule digits_value_decimal[OF ds r])
  have v: "(case X of
              [] \<Rightarrow> 0
            | c # r \<Rightarrow>
                if c = CHR ''-'' then - digits_value r
                else if c = CHR ''+'' then digits_value r
                else digits_value X) = (if sg = ''-'' then - decimal ds else decimal ds)"
  proof -
    consider (minus) "sg = ''-''" | (plus) "sg = ''+''" | (none) "sg = []" using sg by blast
    then show ?thesis
    proof cases
      case minus
      then show ?thesis by (simp add: X_def dv)
    next
      case plus
      then show ?thesis by (simp add: X_def dv)
    next
      case none
      show ?thesis
      proof (cases X)
        case Nil
        then show ?thesis using none by (simp add: X_def decimal_def)
      next
        case (Cons c r')
        have "c \<noteq> CHR ''-'' \<and> c \<noteq> CHR ''+''"
        proof (cases ds)
          case Nil
          then show ?thesis using none ns Cons by (auto simp: X_def)
        next
          case (Cons d ds')
          then have "isdigit c" using ds none \<open>X = c # r'\<close> by (simp add: X_def)
          then show ?thesis by (rule isdigit_not_sign)
        qed
        then show ?thesis using none Cons dv by (simp add: X_def)
      qed
    qed
  qed
  show ?thesis
    unfolding atoi_def dw Let_def v ..
qed

text \<open>The digits \<open>atoi\<close> reads from a token with no digit where it looks for them.\<close>

lemma atoi_no_digits:
  assumes "token_parts ws sg [] rest"
  shows "atoi e (ws @ sg @ rest) = 0"
  using atoi_token_parts[OF assms, of e]
  by (simp add: decimal_def in_int_range_def Let_def)

text \<open>Every token can be taken apart in this way.\<close>

lemma token_parts_exist:
  "\<exists>ws sg ds rest. tok = ws @ sg @ ds @ rest \<and> token_parts ws sg ds rest"
proof -
  define ws where "ws = takeWhile isspace tok"
  define X where "X = dropWhile isspace tok"
  define sg where "sg = (if X \<noteq> [] \<and> (hd X = CHR ''-'' \<or> hd X = CHR ''+'') then [hd X] else [])"
  define Y where "Y = (if X \<noteq> [] \<and> (hd X = CHR ''-'' \<or> hd X = CHR ''+'') then tl X else X)"
  define ds where "ds = takeWhile isdigit Y"
  define rest where "rest = dropWhile isdigit Y"
  have tok: "tok = ws @ X" by (simp add: ws_def X_def)
  have X: "X = sg @ Y" by (cases X) (auto simp: sg_def Y_def)
  have Y: "Y = ds @ rest" by (simp add: ds_def rest_def)
  have 1: "list_all isspace ws"
    unfolding ws_def list_all_iff by (auto dest: set_takeWhileD)
  have 2: "sg = [] \<or> sg = ''-'' \<or> sg = ''+''" by (auto simp: sg_def)
  have 3: "list_all isdigit ds"
    unfolding ds_def list_all_iff by (auto dest: set_takeWhileD)
  have 4: "sg @ ds @ rest = [] \<or> \<not> isspace (hd (sg @ ds @ rest))"
    using hd_dropWhile[of isspace tok] unfolding X_def[symmetric] X Y by auto
  have 5: "sg = [] \<and> ds = [] \<longrightarrow> rest = [] \<or> (hd rest \<noteq> CHR ''-'' \<and> hd rest \<noteq> CHR ''+'')"
  proof (intro impI)
    assume a: "sg = [] \<and> ds = []"
    then have "rest = X" using X Y by simp
    moreover have "X = [] \<or> (hd X \<noteq> CHR ''-'' \<and> hd X \<noteq> CHR ''+'')"
      using a by (auto simp: sg_def split: if_splits)
    ultimately show "rest = [] \<or> (hd rest \<noteq> CHR ''-'' \<and> hd rest \<noteq> CHR ''+'')" by simp
  qed
  have 6: "rest = [] \<or> \<not> isdigit (hd rest)"
    using hd_dropWhile[of isdigit Y] by (auto simp: rest_def)
  have "token_parts ws sg ds rest"
    unfolding token_parts_def using 1 2 3 4 5 6 by blast
  moreover have "tok = ws @ sg @ ds @ rest" using tok X Y by simp
  ultimately show ?thesis by blast
qed


subsection \<open>After a failed start-up\<close>

lemma measure_and_run_model_null:
  "input_tensor s = None \<Longrightarrow>
   measure_and_run_model e s =
     Inl (NullTensor, emit [Println ''Running inference...''] (s\<lparr>clock_reads := clock_reads s + 2\<rparr>))"
  by (simp add: measure_and_run_model_def emit_def Let_def)

lemma line_outcome_not_ready:
  assumes "not_ready s"
  shows "not_ready (state_of (line_outcome e line s)) \<and>
         fault_of (line_outcome e line s) \<in> {None, Some NullTensor}"
proof (cases rule: line_outcome_cases[of e line s])
  case (few n arr)
  then show ?thesis
    using assms by (auto simp: not_ready_def startup_lines_def emit_def)
next
  case (run arr)
  have "input_tensor (s\<lparr>input_array := arr\<rparr>) = None" using assms by (simp add: not_ready_def)
  from measure_and_run_model_null[OF this, of e] run(2) show ?thesis
    using assms by (auto simp: not_ready_def startup_lines_def emit_def)
qed

lemma process_input_not_ready:
  assumes "not_ready s"
  shows "not_ready (state_of (process_input e s)) \<and>
         fault_of (process_input e s) \<in> {None, Some NullTensor}"
  unfolding process_input_line_outcome by (rule line_outcome_not_ready[OF assms])

lemma not_ready_clear_buffer: "not_ready (clear_buffer s) = not_ready s"
  by (simp add: not_ready_def clear_buffer_def)

lemma not_ready_then_clear: "not_ready (state_of (then_clear r)) = not_ready (state_of r)"
  by (cases r) (auto simp: not_ready_clear_buffer)

lemma loop_not_ready:
  assumes "not_ready s" "buffer_ok s"
  shows "not_ready (state_of (loop e a s)) \<and> fault_of (loop e a s) \<in> {None, Some NullTensor}"
proof (cases a)
  case None
  with assms show ?thesis by (simp add: loop_def)
next
  case (Some c)
  have i: "in_buff_idx s < INPUT_BUFFER_SIZE" using assms(2) by (simp add: buffer_ok_def)
  show ?thesis
  proof (cases "c = CR")
    case True
    define s1 where "s1 = (emit [Echo CR, Println []] s)
                \<lparr>in_str_buff := (in_str_buff s)[in_buff_idx s := CR],
                 in_buff_idx := in_buff_idx s + 1\<rparr>"
    have "not_ready s1"
      using assms(1) by (auto simp: not_ready_def s1_def emit_def startup_lines_def)
    from process_input_not_ready[OF this, of e] show ?thesis
      unfolding Some True loop_CR_eq[OF i] s1_def[symmetric]
      by (simp add: not_ready_then_clear)
  next
    case False
    show ?thesis
      unfolding Some loop_plain[OF False i]
      using assms(1) by (auto simp: not_ready_def Let_def emit_def clear_buffer_def)
  qed
qed

lemma run_not_ready:
  assumes "not_ready s" "buffer_ok s"
  shows "not_ready (state_of (run e bs s)) \<and> fault_of (run e bs s) \<in> {None, Some NullTensor}"
  using assms
proof (induction bs arbitrary: s)
  case Nil
  then show ?case by simp
next
  case (Cons c cs)
  show ?case
  proof (cases "loop e (Some c) s")
    case (Inl h)
    then show ?thesis using loop_not_ready[OF Cons.prems, of e "Some c"] by simp
  next
    case (Inr s1)
    have "not_ready s1" using loop_not_ready[OF Cons.prems, of e "Some c"] Inr by simp
    moreover have "buffer_ok s1" using loop_buffer_ok[OF Cons.prems(2) Inr] .
    ultimately show ?thesis using Cons.IH[of s1] Inr by simp
  qed
qed

lemma setup_sketch_not_ready:
  assumes "model_version e \<noteq> TFLITE_SCHEMA_VERSION e \<or> \<not> allocate_ok e"
  shows "not_ready (setup_sketch e)"
  using assms
  by (auto simp: setup_sketch_def not_ready_def startup_lines_def emit_def initial_state_def Let_def)

subsection \<open>The length of the integer array\<close>

lemma string_to_array_length:
  assumes "length arr = INT_ARRAY_SIZE"
  shows "length (snd (string_to_array e line arr)) = INT_ARRAY_SIZE"
  using string_to_array_tokens[OF assms, of e line] assms by (simp add: min_def)

lemma line_outcome_array_length:
  assumes "length (input_array s) = INT_ARRAY_SIZE"
  shows "length (input_array (state_of (line_outcome e line s))) = INT_ARRAY_SIZE"
proof (cases rule: line_outcome_cases[of e line s])
  case (few n arr)
  then show ?thesis
    using string_to_array_length[OF assms, of e line] by (simp add: emit_def)
next
  case (run arr)
  then show ?thesis
    using string_to_array_length[OF assms, of e line]
      measure_and_run_model_frame[of e "s\<lparr>input_array := arr\<rparr>"] by simp
qed

lemma loop_array_length:
  assumes "length (input_array s) = INT_ARRAY_SIZE"
  shows "length (input_array (state_of (loop e a s))) = INT_ARRAY_SIZE"
proof (cases a)
  case None
  with assms show ?thesis by (simp add: loop_def)
next
  case (Some c)
  show ?thesis
  proof (cases "store_byte c s")
    case (Inl h)
    then show ?thesis
      using assms Some by (auto simp: loop_def store_byte_def emit_def Let_def split: if_splits)
  next
    case (Inr s1)
    then have l1: "length (input_array (emit [Println []] s1)) = INT_ARRAY_SIZE"
      "length (input_array s1) = INT_ARRAY_SIZE"
      using assms by (auto simp: store_byte_def emit_def Let_def split: if_splits)
    have "length (input_array (state_of (then_clear (process_input e (emit [Println []] s1))))) =
            INT_ARRAY_SIZE"
      using line_outcome_array_length[OF l1(1), of e "c_string e (emit [Println []] s1)"]
      by (cases "process_input e (emit [Println []] s1)")
         (auto simp: process_input_line_outcome clear_buffer_def)
    then show ?thesis
      using Some Inr l1(2) by (auto simp: loop_def then_clear_def clear_buffer_def)
  qed
qed

lemma run_array_length:
  assumes "length (input_array s) = INT_ARRAY_SIZE"
  shows "length (input_array (state_of (run e bs s))) = INT_ARRAY_SIZE"
  using assms
proof (induction bs arbitrary: s)
  case Nil
  then show ?case by simp
next
  case (Cons c cs)
  show ?case
  proof (cases "loop e (Some c) s")
    case (Inl h)
    then show ?thesis using loop_array_length[OF Cons.prems, of e "Some c"] by simp
  next
    case (Inr s1)
    then show ?thesis
      using Cons.IH[of s1] loop_array_length[OF Cons.prems, of e "Some c"] by simp
  qed
qed

lemma setup_sketch_array_length: "length (input_array (setup_sketch e)) = INT_ARRAY_SIZE"
  by (simp add: setup_sketch_def initial_state_def emit_def Let_def)

text \<open>A line with fewer than seven tokens, received in full from an empty buffer.\<close>

lemma run_short_line:
  assumes "buffer_empty s" "CR \<notin> set l" "NUL \<notin> set l" "length l + 2 \<le> INPUT_BUFFER_SIZE"
    and "length (input_array s) = INT_ARRAY_SIZE"
    and "length (tokens (l @ [CR])) < INT_ARRAY_SIZE"
  shows "\<exists>s'. run e (l @ [CR]) s = Inr s' \<and>
              trace s' = trace s @ map Echo (l @ [CR]) @
                           [Println [], Println ''Error: Please enter exactly 7 integers.''] \<and>
              input_tensor s' = input_tensor s \<and> output_tensor s' = output_tensor s \<and>
              buffer_empty s'"
proof -
  have lt: "length l < INPUT_BUFFER_SIZE" using assms(4) by simp
  have cs: "c_string e (line_state l s) = l @ [CR]"
    by (rule c_string_line_state[OF assms(2-4)])
  have la: "length (input_array (line_state l s)) = INT_ARRAY_SIZE"
    using assms(5) by (simp add: line_state_def emit_def)
  have "run e (l @ [CR]) s = then_clear (process_input e (line_state l s))"
    by (rule run_line[OF assms(1,2) lt])
  then show ?thesis
    unfolding process_input_few[OF cs la assms(6)]
    by (simp add: clear_buffer_def emit_def line_state_def buffer_empty_def)
qed

subsection \<open>Runs that do not end\<close>

lemma quantize_loop_Some:
  assumes "quantize_loop e sc zp arr dat i = Some dat'"
  shows "length dat' = length dat \<and>
         (\<forall>j. i \<le> j \<and> j < INT_ARRAY_SIZE \<longrightarrow> dat' ! j = quantize e sc zp (arr ! j)) \<and>
         (\<forall>j. j < i \<longrightarrow> dat' ! j = dat ! j)"
  using assms
proof (induction e sc zp arr dat i rule: quantize_loop.induct)
  case (1 e sc zp arr dat i)
  show ?case
  proof (cases "i < INT_ARRAY_SIZE")
    case False
    then have "dat' = dat" using "1.prems" by (subst (asm) quantize_loop.simps) simp
    with False show ?thesis by auto
  next
    case True
    define q where "q = quantize e sc zp (arr ! i)"
    from "1.prems" True have il: "i < length dat"
      and rec: "quantize_loop e sc zp arr (dat[i := q]) (i + 1) = Some dat'"
      by (subst (asm) quantize_loop.simps; simp add: q_def Let_def split: if_splits)+
    note IH = "1.IH"[OF True q_def il rec]
    have len: "length dat' = length dat" using IH by simp
    have low: "dat' ! j = dat ! j" if "j < i" for j
      using IH that by simp
    have at: "dat' ! i = q" using IH il by simp
    have up: "dat' ! j = quantize e sc zp (arr ! j)" if "i \<le> j" "j < INT_ARRAY_SIZE" for j
    proof (cases "j = i")
      case True
      then show ?thesis using at by (simp add: q_def)
    next
      case False
      then have "i + 1 \<le> j" using that by simp
      then show ?thesis using IH that by blast
    qed
    show ?thesis using len low up by blast
  qed
qed

lemma quantize_loop_total:
  assumes "INT_ARRAY_SIZE \<le> length dat"
  shows "\<exists>dat'. quantize_loop e sc zp arr dat i = Some dat'"
  using assms
proof (induction e sc zp arr dat i rule: quantize_loop.induct)
  case (1 e sc zp arr dat i)
  show ?case
  proof (cases "i < INT_ARRAY_SIZE")
    case False
    then show ?thesis by (subst quantize_loop.simps) simp
  next
    case True
    define q where "q = quantize e sc zp (arr ! i)"
    have il: "i < length dat" using True "1.prems" by simp
    have "INT_ARRAY_SIZE \<le> length (dat[i := q])" using "1.prems" by simp
    from "1.IH"[OF True q_def il this] obtain dat' where
      "quantize_loop e sc zp arr (dat[i := q]) (i + 1) = Some dat'" by blast
    then show ?thesis
      using True il by (subst quantize_loop.simps) (simp add: q_def Let_def)
  qed
qed

lemma measure_and_run_model_total:
  assumes "tensors_ok s" "\<forall>d. invoke e d \<noteq> Some []"
  shows "\<exists>s'. measure_and_run_model e s = Inr s' \<and> tensors_ok s'"
proof -
  from assms(1) obtain it ot where it: "input_tensor s = Some it"
    and len: "INT_ARRAY_SIZE \<le> length (data_int8 it)" and ot: "output_tensor s = Some ot"
    by (auto simp: tensors_ok_def)
  obtain dat where dat: "quantize_loop e (params_scale it) (params_zero_point it)
      (input_array s) (data_int8 it) 0 = Some dat"
    using quantize_loop_total[OF len] by blast
  have ld: "length dat = length (data_int8 it)"
    using quantize_loop_Some[OF dat] by simp
  show ?thesis
  proof (cases "invoke e dat")
    case None
    then show ?thesis
      using it ot dat ld len
      by (auto simp: measure_and_run_model_def emit_def Let_def tensors_ok_def)
  next
    case (Some out)
    then have "out \<noteq> []" using assms(2) by auto
    then obtain r out' where "out = r # out'" by (cases out) auto
    then show ?thesis
      using it ot dat ld len Some
      by (auto simp: measure_and_run_model_def emit_def Let_def tensors_ok_def)
  qed
qed

lemma line_outcome_total:
  assumes "tensors_ok s" "\<forall>d. invoke e d \<noteq> Some []"
  shows "\<exists>s'. line_outcome e line s = Inr s' \<and> tensors_ok s'"
proof (cases rule: line_outcome_cases[of e line s])
  case (few n arr)
  then show ?thesis using assms(1) by (simp add: tensors_ok_def emit_def)
next
  case (run arr)
  have "tensors_ok (s\<lparr>input_array := arr\<rparr>)" using assms(1) by (simp add: tensors_ok_def)
  from measure_and_run_model_total[OF this assms(2)] run(2) show ?thesis by simp
qed



lemma setup_sketch_tensors_ok:
  assumes "started e" "well_formed e"
  shows "tensors_ok (setup_sketch e)"
  using assms
  by (simp add: started_def well_formed_def tensors_ok_def setup_sketch_def emit_def Let_def)

lemma demo_env_ready: "started demo_env" "well_formed demo_env"
  by (simp_all add: started_def well_formed_def demo_env_def demo_tensor_def INT_ARRAY_SIZE_def)

subsection \<open>The predictions printed\<close>

lemma clamp_prediction_range: "- 128 \<le> clamp_prediction e y \<and> clamp_prediction e y \<le> 127"
  by (simp add: clamp_prediction_def Let_def)

lemma prints_in_range_append:
  "prints_in_range (as @ bs) \<longleftrightarrow> prints_in_range as \<and> prints_in_range bs"
  by (auto simp: prints_in_range_def)

lemma measure_and_run_model_prints:
  "\<exists>es. trace (state_of (measure_and_run_model e s)) = trace s @ es \<and> prints_in_range es"
  using clamp_prediction_range
  by (auto simp: measure_and_run_model_def emit_def Let_def prints_in_range_def
      split: option.splits list.splits)

lemma line_outcome_prints:
  "\<exists>es. trace (state_of (line_outcome e line s)) = trace s @ es \<and> prints_in_range es"
proof (cases rule: line_outcome_cases[of e line s])
  case (few n arr)
  then show ?thesis by (simp add: emit_def prints_in_range_def)
next
  case (run arr)
  then show ?thesis
    using measure_and_run_model_prints[of e "s\<lparr>input_array := arr\<rparr>"] by simp
qed

lemma loop_prints:
  assumes "prints_in_range (trace s)"
  shows "prints_in_range (trace (state_of (loop e a s)))"
proof (cases a)
  case None
  with assms show ?thesis by (simp add: loop_def)
next
  case (Some c)
  show ?thesis
  proof (cases "store_byte c s")
    case (Inl h)
    then show ?thesis
      using assms Some
      by (auto simp: loop_def store_byte_def emit_def Let_def prints_in_range_def split: if_splits)
  next
    case (Inr s1)
    then have t1: "trace s1 = trace s @ [Echo c]"
      by (auto simp: store_byte_def emit_def Let_def split: if_splits)
    have p1: "prints_in_range (trace s1)" "prints_in_range (trace (emit [Println []] s1))"
      using assms t1 by (auto simp: prints_in_range_def emit_def)
    show ?thesis
    proof (cases "c = CR")
      case True
      obtain es where es: "trace (state_of (process_input e (emit [Println []] s1))) =
          trace (emit [Println []] s1) @ es" "prints_in_range es"
        using line_outcome_prints[of e "c_string e (emit [Println []] s1)" "emit [Println []] s1"]
        by (auto simp: process_input_line_outcome)
      have "prints_in_range (trace (state_of (process_input e (emit [Println []] s1))))"
        unfolding es(1) using p1(2) es(2) by (simp add: prints_in_range_append)
      then show ?thesis
        using Some Inr True
        by (cases "process_input e (emit [Println []] s1)") (auto simp: loop_def clear_buffer_def)
    next
      case False
      then show ?thesis
        using Some Inr p1(1) by (auto simp: loop_def clear_buffer_def)
    qed
  qed
qed

lemma run_prints:
  assumes "prints_in_range (trace s)"
  shows "prints_in_range (trace (state_of (run e bs s)))"
  using assms
proof (induction bs arbitrary: s)
  case Nil
  then show ?case by simp
next
  case (Cons c cs)
  show ?case
  proof (cases "loop e (Some c) s")
    case (Inl h)
    then show ?thesis using loop_prints[OF Cons.prems, of e "Some c"] by simp
  next
    case (Inr s1)
    then show ?thesis
      using Cons.IH[of s1] loop_prints[OF Cons.prems, of e "Some c"] by simp
  qed
qed

lemma setup_sketch_prints: "prints_in_range (trace (setup_sketch e))"
  by (auto simp: setup_sketch_def prints_in_range_def emit_def initial_state_def Let_def)

text \<open>
  A line with seven or more tokens, received in full from an empty buffer while the input
  tensor pointer is null.
\<close>

lemma run_long_line_null:
  assumes "buffer_empty s" "CR \<notin> set l" "NUL \<notin> set l" "length l + 2 \<le> INPUT_BUFFER_SIZE"
    and "length (input_array s) = INT_ARRAY_SIZE"
    and "INT_ARRAY_SIZE \<le> length (tokens (l @ [CR]))"
    and "input_tensor s = None"
  shows "\<exists>s'. run e (l @ [CR]) s = Inl (NullTensor, s') \<and>
              trace s' = trace s @ map Echo (l @ [CR]) @
                           [Println [], Println ''Running inference...'']"
proof -
  have lt: "length l < INPUT_BUFFER_SIZE" using assms(4) by simp
  have cs: "c_string e (line_state l s) = l @ [CR]"
    by (rule c_string_line_state[OF assms(2-4)])
  have la: "length (input_array (line_state l s)) = INT_ARRAY_SIZE"
    using assms(5) by (simp add: line_state_def emit_def)
  define s1 where "s1 = (line_state l s)
      \<lparr>input_array := map (atoi e) (take INT_ARRAY_SIZE (tokens (l @ [CR])))\<rparr>"
  have "input_tensor s1 = None" using assms(7) by (simp add: s1_def line_state_def emit_def)
  from measure_and_run_model_null[OF this, of e]
  have "process_input e (line_state l s) =
          Inl (NullTensor, emit [Println ''Running inference...'']
                             (s1\<lparr>clock_reads := clock_reads s1 + 2\<rparr>))"
    unfolding process_input_enough[OF cs la assms(6)] s1_def[symmetric] .
  then have "run e (l @ [CR]) s =
          Inl (NullTensor, emit [Println ''Running inference...'']
                             (s1\<lparr>clock_reads := clock_reads s1 + 2\<rparr>))"
    unfolding run_line[OF assms(1,2) lt] by simp
  then show ?thesis by (simp add: s1_def line_state_def emit_def)
qed

text \<open>The path of \<open>measure_and_run_model\<close> on which a prediction is printed.\<close>

lemma measure_and_run_model_success:
  assumes "input_tensor s = Some it" "output_tensor s = Some ot"
    and "type_is_int8 it" "type_is_int8 ot"
    and "quantize_loop e (params_scale it) (params_zero_point it) (input_array s) (data_int8 it) 0
           = Some dat"
    and "invoke e dat = Some (r # out)"
  shows "\<exists>s'. measure_and_run_model e s = Inr s' \<and>
              trace s' = trace s @
                [Println ''Running inference...'', Invoke dat,
                 Print ''Raw dequantized prediction (float): '',
                 PrintlnFloat (dequantize (params_scale ot) (params_zero_point ot) r),
                 Print ''Predicted next integer value: '',
                 PrintlnInt (clamp_prediction e
                   (dequantize (params_scale ot) (params_zero_point ot) r)),
                 Print ''Printing time (us): '',
                 PrintlnULong (micros e (clock_reads s + 1) - micros e (clock_reads s)),
                 Print ''Inference time (us): '',
                 PrintlnULong (micros e (clock_reads s + 2) - micros e (clock_reads s + 1))]"
  using assms by (simp add: measure_and_run_model_def emit_def Let_def)


subsection \<open>Single-precision rounding\<close>

lemma bit_length_bounds:
  assumes "0 < n"
  shows "2 ^ bit_length n \<le> 2 * n \<and> n < 2 ^ bit_length n"
  using assms
proof (induction n rule: bit_length.induct)
  case (1 n)
  show ?case
  proof (cases "n = 1")
    case True
    have "bit_length 1 = Suc 0"
      by (subst bit_length.simps, simp, subst bit_length.simps, simp)
    with True show ?thesis by simp
  next
    case False
    with "1.prems" have n2: "0 < n div 2" by simp
    have IH: "2 ^ bit_length (n div 2) \<le> 2 * (n div 2) \<and> n div 2 < 2 ^ bit_length (n div 2)"
      using "1.IH" "1.prems" n2 by simp
    have bl: "bit_length n = Suc (bit_length (n div 2))"
      using "1.prems" by (subst bit_length.simps) simp
    have "2 * (n div 2) \<le> n" by simp
    moreover have "n < 2 * (n div 2) + 2" by simp
    ultimately show ?thesis using IH unfolding bl by simp
  qed
qed

lemma pow2_pos: "0 < pow2 e"
  by (simp add: pow2_def)

lemma pow2_powi: "pow2 e = 2 powi e"
  by (simp add: pow2_def power_int_def divide_simps)

lemma pow2_diff: "pow2 (a - b) = pow2 a / pow2 b"
  by (simp add: pow2_powi power_int_diff)

lemma pow2_nat: "pow2 (int k) = 2 ^ k"
  by (simp add: pow2_def)

lemma pow2_numerals: "pow2 1 = 2" "pow2 23 = 2 ^ 23" "pow2 (- 149) = 1 / 2 ^ 149"
  by (simp_all add: pow2_def)

lemma ilog2_le:
  assumes "0 < r"
  shows "pow2 (ilog2 r) \<le> r"
proof -
  obtain p q where pq: "quotient_of r = (p, q)" by (cases "quotient_of r")
  have q: "0 < q" using quotient_of_denom_pos[OF pq] .
  have r: "r = of_int p / of_int q" using quotient_of_div[OF pq] .
  have p: "0 < p" using assms q r by (simp add: zero_less_divide_iff)
  define e where "e = int (bit_length p) - int (bit_length q)"
  show ?thesis
  proof (cases "pow2 e \<le> r")
    case True
    then show ?thesis by (simp add: ilog2_def pq e_def Let_def)
  next
    case False
    have il: "ilog2 r = e - 1" using False by (simp add: ilog2_def pq e_def Let_def)
    have bp: "(2::int) ^ bit_length p \<le> 2 * p" using bit_length_bounds[OF p] by simp
    have bq: "q < 2 ^ bit_length q" using bit_length_bounds[OF q] by simp
    have "pow2 (e - 1) = pow2 e / 2"
      by (simp add: pow2_diff pow2_numerals)
    also have "\<dots> = (2 ^ bit_length p / 2) / 2 ^ bit_length q"
      unfolding e_def pow2_diff pow2_nat by simp
    also have "\<dots> \<le> of_int p / 2 ^ bit_length q"
    proof -
      have "(of_int (2 ^ bit_length p) :: rat) \<le> of_int (2 * p)"
        using bp by (simp only: of_int_le_iff)
      then have "(2::rat) ^ bit_length p / 2 \<le> of_int p" by simp
      then show ?thesis by (intro divide_right_mono) simp_all
    qed
    also have "\<dots> \<le> of_int p / of_int q"
    proof -
      have "(of_int q :: rat) \<le> of_int (2 ^ bit_length q)"
        using bq by (simp only: of_int_le_iff)
      then have "(of_int q :: rat) \<le> 2 ^ bit_length q" by simp
      moreover have "(0::rat) < of_int q" using q by simp
      moreover have "(0::rat) \<le> of_int p" using p by simp
      ultimately show ?thesis by (simp add: frac_le)
    qed
    finally show ?thesis using il r by simp
  qed
qed

lemma round_half_even_error: "\<bar>of_int (round_half_even z) - z\<bar> \<le> 1 / 2"
proof -
  define f where "f = \<lfloor>z\<rfloor>"
  define d where "d = z - of_int f"
  have d0: "0 \<le> d" unfolding d_def f_def by simp
  have d1: "d < 1" unfolding d_def f_def using floor_correct[of z] by simp
  have r: "round_half_even z =
             (if d < 1 / 2 then f else if 1 / 2 < d then f + 1 else if even f then f else f + 1)"
    by (simp add: round_half_even_def Let_def d_def f_def)
  have close: "\<bar>of_int k - z\<bar> \<le> 1 / 2"
    if "k = f \<and> d \<le> 1 / 2 \<or> k = f + 1 \<and> 1 / 2 \<le> d" for k
  proof -
    have "of_int k - z = of_int k - of_int f - d" by (simp add: d_def)
    then show ?thesis using that d0 d1 by auto
  qed
  have "round_half_even z = f \<and> d \<le> 1 / 2 \<or> round_half_even z = f + 1 \<and> 1 / 2 \<le> d"
    unfolding r by auto
  then show ?thesis by (rule close)
qed

lemma f32_round_error:
  assumes "r \<noteq> 0"
  shows "\<bar>of_int (round_half_even (r / f32_ulp r)) * f32_ulp r - r\<bar>
           \<le> \<bar>r\<bar> / 2 ^ 24 + 1 / 2 ^ 150"
proof -
  define u where "u = f32_ulp r"
  define v where "v = of_int (round_half_even (r / u)) * u"
  have u: "0 < u" by (simp add: u_def f32_ulp_def pow2_pos)
  have "\<bar>v - r\<bar> = \<bar>of_int (round_half_even (r / u)) - r / u\<bar> * u"
  proof -
    have "v - r = (of_int (round_half_even (r / u)) - r / u) * u"
      using u by (simp add: v_def left_diff_distrib)
    then show ?thesis using u by (simp add: abs_mult)
  qed
  also have "\<dots> \<le> (1 / 2) * u"
    using round_half_even_error[of "r / u"] u by (intro mult_right_mono) simp_all
  finally have half: "\<bar>v - r\<bar> \<le> u / 2" by simp
  have "u / 2 \<le> \<bar>r\<bar> / 2 ^ 24 + 1 / 2 ^ 150"
  proof (cases "- 126 \<le> ilog2 \<bar>r\<bar>")
    case True
    then have "u = pow2 (ilog2 \<bar>r\<bar> - 23)" by (simp add: u_def f32_ulp_def max_def)
    then have "u / 2 = pow2 (ilog2 \<bar>r\<bar>) / 2 ^ 24"
      by (simp add: pow2_diff pow2_numerals)
    also have "\<dots> \<le> \<bar>r\<bar> / 2 ^ 24"
      using ilog2_le[of "\<bar>r\<bar>"] assms by (simp add: divide_right_mono)
    finally show ?thesis by simp
  next
    case False
    then have "u = pow2 (- 126 - 23)" by (simp add: u_def f32_ulp_def max_def)
    then have "u / 2 = 1 / 2 ^ 150" by (simp add: pow2_numerals)
    then show ?thesis by simp
  qed
  with half show ?thesis unfolding v_def u_def by simp
qed

text \<open>Rounding to \<open>float\<close> moves a number by at most half a unit in the last place.\<close>

lemma f32_error:
  assumes "f32 r = Some v"
  shows "\<bar>v - r\<bar> \<le> \<bar>r\<bar> / 2 ^ 24 + 1 / 2 ^ 150"
proof (cases "r = 0")
  case True
  with assms show ?thesis by (simp add: f32_def)
next
  case False
  have "v = of_int (round_half_even (r / f32_ulp r)) * f32_ulp r"
    using assms False by (auto simp: f32_def Let_def split: if_splits)
  then show ?thesis using f32_round_error[OF False] by simp
qed

lemma f32_finite:
  assumes "\<bar>r\<bar> \<le> 2 ^ 127"
  shows "\<exists>v. f32 r = Some v"
proof (cases "r = 0")
  case True
  then show ?thesis by (simp add: f32_def)
next
  case False
  define v where "v = of_int (round_half_even (r / f32_ulp r)) * f32_ulp r"
  have "\<bar>v - r\<bar> \<le> \<bar>r\<bar> / 2 ^ 24 + 1 / 2 ^ 150"
    unfolding v_def by (rule f32_round_error[OF False])
  moreover have "\<bar>v\<bar> \<le> \<bar>r\<bar> + \<bar>v - r\<bar>" by simp
  ultimately have "\<bar>v\<bar> < 2 ^ 128" using assms by simp
  then have "\<bar>v\<bar> < pow2 128" by (simp add: pow2_def)
  then show ?thesis using False by (simp add: f32_def Let_def v_def)
qed

lemma f32_zero: "f32 0 = Some 0"
  by (simp add: f32_def)

subsection \<open>Quantization, dequantization and rounding\<close>

lemma sint_word8:
  assumes "- 128 \<le> t" "t \<le> 127"
  shows "sint (word_of_int t :: 8 word) = t"
proof -
  have "(t + 128) mod 256 = t + 128" using assms by simp
  then show ?thesis by (simp add: int_word_sint)
qed

lemma sint_word8_wrap: "sint (word_of_int t :: 8 word) = (t + 128) mod 256 - 128"
  by (simp add: int_word_sint)

lemma trunc_toward_zero_close: "\<bar>of_int (trunc_toward_zero x) - x\<bar> < 1"
proof (cases "0 \<le> x")
  case True
  have f1: "of_int \<lfloor>x\<rfloor> \<le> x" by (rule of_int_floor_le)
  have f2: "x < of_int \<lfloor>x\<rfloor> + 1" using floor_correct[of x] by simp
  have "\<bar>of_int \<lfloor>x\<rfloor> - x\<bar> < 1" using f1 f2 by linarith
  then show ?thesis using True by (simp add: trunc_toward_zero_def)
next
  case False
  have c1: "x \<le> of_int \<lceil>x\<rceil>" by (rule le_of_int_ceiling)
  have c2: "of_int \<lceil>x\<rceil> - 1 < x" using ceiling_correct[of x] by simp
  have "\<bar>of_int \<lceil>x\<rceil> - x\<bar> < 1" using c1 c2 by linarith
  then show ?thesis using False by (simp add: trunc_toward_zero_def)
qed

lemma trunc_toward_zero_of_int [simp]: "trunc_toward_zero (of_int k) = k"
  by (simp add: trunc_toward_zero_def)

text \<open>\<open>round\<close> gives the nearest integer, and it is the only one.\<close>

lemma round_half_away_nearest: "nearest_integer v (round_half_away v)"
proof (cases "0 \<le> v")
  case True
  define n where "n = \<lfloor>v + 1 / 2\<rfloor>"
  have 1: "of_int n \<le> v + 1 / 2" unfolding n_def by (rule of_int_floor_le)
  have 2: "v + 1 / 2 < of_int n + 1" unfolding n_def using floor_correct[of "v + 1 / 2"] by simp
  have "\<bar>of_int n - v\<bar> \<le> 1 / 2" using 1 2 by linarith
  moreover have "\<bar>v\<bar> < \<bar>of_int n\<bar>" if "\<bar>of_int n - v\<bar> = 1 / 2"
  proof -
    have "of_int n - v = 1 / 2" using that 2 by linarith
    then show ?thesis using True by linarith
  qed
  ultimately show ?thesis
    using True by (simp add: nearest_integer_def round_half_away_def n_def)
next
  case False
  define n where "n = \<lceil>v - 1 / 2\<rceil>"
  have 1: "v - 1 / 2 \<le> of_int n" unfolding n_def by (rule le_of_int_ceiling)
  have 2: "of_int n - 1 < v - 1 / 2" unfolding n_def using ceiling_correct[of "v - 1 / 2"] by simp
  have "\<bar>of_int n - v\<bar> \<le> 1 / 2" using 1 2 by linarith
  moreover have "\<bar>v\<bar> < \<bar>of_int n\<bar>" if "\<bar>of_int n - v\<bar> = 1 / 2"
  proof -
    have "v - of_int n = 1 / 2" using that 2 by linarith
    then show ?thesis using False by linarith
  qed
  ultimately show ?thesis
    using False by (simp add: nearest_integer_def round_half_away_def n_def)
qed

lemma nearest_integer_half:
  assumes "nearest_integer v (k + 1)" "nearest_integer v k"
  shows False
proof -
  have n: "\<bar>of_int (k + 1) - v\<bar> \<le> 1 / 2" and m: "\<bar>of_int k - v\<bar> \<le> 1 / 2"
    using assms by (simp_all add: nearest_integer_def)
  have k1: "(of_int (k + 1) :: rat) = of_int k + 1" by simp
  have "v \<le> of_int k + 1 / 2" using m by linarith
  moreover have "of_int k + 1 / 2 \<le> v" using n unfolding k1 by linarith
  ultimately have v: "v = of_int k + 1 / 2" by (rule antisym)
  have tn: "\<bar>of_int (k + 1) - v\<bar> = 1 / 2" and tm: "\<bar>of_int k - v\<bar> = 1 / 2"
    unfolding k1 v by simp_all
  have an: "\<bar>v\<bar> < \<bar>of_int k + 1\<bar>" and am: "\<bar>v\<bar> < \<bar>of_int k\<bar>"
    using assms tn tm unfolding nearest_integer_def k1 by blast+
  consider "0 \<le> k" | "k \<le> - 1" by linarith
  then show False
  proof cases
    case 1
    then have "(0::rat) \<le> of_int k" by simp
    then show False using am v by linarith
  next
    case 2
    then have "(of_int k :: rat) \<le> of_int (- 1)" by (simp only: of_int_le_iff)
    then have "(of_int k :: rat) \<le> - 1" by simp
    then show False using an v by linarith
  qed
qed

lemma nearest_integer_unique:
  assumes "nearest_integer v n" "nearest_integer v m"
  shows "n = m"
proof (rule ccontr)
  assume ne: "n \<noteq> m"
  have n: "\<bar>of_int n - v\<bar> \<le> 1 / 2" and m: "\<bar>of_int m - v\<bar> \<le> 1 / 2"
    using assms by (simp_all add: nearest_integer_def)
  have "\<bar>(of_int n :: rat) - of_int m\<bar> \<le> 1" using n m by linarith
  then have "\<bar>(of_int (n - m) :: rat)\<bar> \<le> of_int 1" by simp
  then have "(of_int \<bar>n - m\<bar> :: rat) \<le> of_int 1" by (simp only: of_int_abs)
  then have "\<bar>n - m\<bar> \<le> 1" by (simp only: of_int_le_iff)
  then have "n = m + 1 \<or> m = n + 1" using ne by linarith
  then show False
    using nearest_integer_half[of v m] nearest_integer_half[of v n] assms by auto
qed

lemma nearest_integer_iff: "nearest_integer v n \<longleftrightarrow> n = round_half_away v"
  using round_half_away_nearest nearest_integer_unique by blast

text \<open>The prediction reported for a finite \<open>float\<close> whose rounded value \<open>int\<close> can hold.\<close>

lemma clamp_prediction_finite:
  assumes "in_int_range (round_half_away v)"
  shows "clamp_prediction e (Some v) = max (- 128) (min 127 (round_half_away v))"
  using assms by (simp add: clamp_prediction_def round_float_def float_to_int_def Let_def)

text \<open>The value quantized from a quotient whose integer part \<open>int\<close> can hold.\<close>

lemma quantize_quotient:
  assumes "float_div (float_of_int (wrap_int (x - zp))) sc = Some d"
    and "in_int_range (trunc_toward_zero d)"
  shows "quantize e sc zp x = word_of_int (trunc_toward_zero d)"
  using assms by (simp add: quantize_def float_to_int_def)

lemma quantize_in_range:
  assumes "float_div (float_of_int (wrap_int (x - zp))) sc = Some d"
    and "- 128 \<le> trunc_toward_zero d" "trunc_toward_zero d \<le> 127"
  shows "sint (quantize e sc zp x) = trunc_toward_zero d"
proof -
  have "in_int_range (trunc_toward_zero d)" using assms(2,3) by (simp add: in_int_range_def)
  from quantize_quotient[OF assms(1) this] show ?thesis
    using sint_word8[OF assms(2,3)] by simp
qed

lemma float_div_Some:
  assumes "float_div a sc = Some d"
  shows "\<exists>n. a = Some n \<and> sc \<noteq> 0 \<and> f32 (n / sc) = Some d"
  using assms by (auto simp: float_div_def split: option.splits if_splits)

lemma float_mul_Some:
  assumes "float_mul a sc = Some y"
  shows "\<exists>m. a = Some m \<and> f32 (m * sc) = Some y"
  using assms by (auto simp: float_mul_def split: option.splits)

text \<open>
  The dequantized value against the exact product: two roundings, each by at most half a
  unit in the last place.
\<close>

lemma dequantize_error:
  assumes "in_int_range (sint r - zp)" "dequantize sc zp r = Some y"
  shows "\<bar>y - of_int (sint r - zp) * sc\<bar>
           \<le> \<bar>of_int (sint r - zp) * sc\<bar> / 2 ^ 22 + (1 + \<bar>sc\<bar>) / 2 ^ 149"
proof -
  define b :: rat where "b = of_int (sint r - zp)"
  have "float_mul (float_of_int (sint r - zp)) sc = Some y"
    using assms by (simp add: dequantize_def wrap_int_id)
  then obtain m where m: "f32 b = Some m" and y: "f32 (m * sc) = Some y"
    using float_mul_Some by (fastforce simp: float_of_int_def b_def)
  have e_m: "\<bar>m - b\<bar> \<le> \<bar>b\<bar> / 2 ^ 24 + 1 / 2 ^ 150" by (rule f32_error[OF m])
  have e_y: "\<bar>y - m * sc\<bar> \<le> \<bar>m * sc\<bar> / 2 ^ 24 + 1 / 2 ^ 150" by (rule f32_error[OF y])
  define S where "S = \<bar>sc\<bar>"
  define B where "B = \<bar>b\<bar> * S"
  define M where "M = \<bar>m\<bar> * S"
  define ya where "ya = \<bar>y - m * sc\<bar>"
  define mb where "mb = \<bar>m - b\<bar> * S"
  have S: "0 \<le> S" by (simp add: S_def)
  have B: "0 \<le> B" by (simp add: B_def S_def)
  have 1: "ya \<le> M / 2 ^ 24 + 1 / 2 ^ 150"
    using e_y by (simp add: ya_def M_def S_def abs_mult)
  have 2: "mb \<le> B / 2 ^ 24 + S / 2 ^ 150"
  proof -
    have "\<bar>m - b\<bar> * S \<le> (\<bar>b\<bar> / 2 ^ 24 + 1 / 2 ^ 150) * S"
      using e_m S by (intro mult_right_mono) simp_all
    moreover have "(\<bar>b\<bar> / 2 ^ 24 + 1 / 2 ^ 150) * S = B / 2 ^ 24 + S / 2 ^ 150"
      by (simp add: B_def algebra_simps)
    ultimately show ?thesis by (simp only: mb_def)
  qed
  have 3: "M \<le> B + B / 2 ^ 24 + S / 2 ^ 150"
  proof -
    have "\<bar>m\<bar> \<le> \<bar>b\<bar> + \<bar>m - b\<bar>" by simp
    then have "\<bar>m\<bar> \<le> \<bar>b\<bar> + (\<bar>b\<bar> / 2 ^ 24 + 1 / 2 ^ 150)" using e_m by linarith
    then have "\<bar>m\<bar> * S \<le> (\<bar>b\<bar> + (\<bar>b\<bar> / 2 ^ 24 + 1 / 2 ^ 150)) * S"
      using S by (intro mult_right_mono) simp_all
    moreover have "(\<bar>b\<bar> + (\<bar>b\<bar> / 2 ^ 24 + 1 / 2 ^ 150)) * S = B + B / 2 ^ 24 + S / 2 ^ 150"
      by (simp add: B_def algebra_simps)
    ultimately show ?thesis by (simp only: M_def)
  qed
  have "y - b * sc = (y - m * sc) + (m - b) * sc" by (simp add: algebra_simps)
  then have "\<bar>y - b * sc\<bar> \<le> ya + mb"
    unfolding ya_def mb_def S_def abs_mult[symmetric] by linarith
  also have "\<dots> \<le> B / 2 ^ 22 + (1 / 2 ^ 149 + S / 2 ^ 149)"
    using 1 2 3 S B by simp
  finally show ?thesis
    by (simp add: b_def B_def S_def abs_mult add_divide_distrib)
qed


subsection \<open>Quantization followed by dequantization, for the zero point 0\<close>

lemma trunc_toward_zero_small:
  assumes "\<bar>x\<bar> < 1"
  shows "trunc_toward_zero x = 0"
proof (cases "0 \<le> x")
  case True
  then have "\<lfloor>x\<rfloor> = 0" using assms by (intro floor_unique) simp_all
  then show ?thesis using True by (simp add: trunc_toward_zero_def)
next
  case False
  then have "\<lceil>x\<rceil> = 0" using assms by (intro ceiling_unique) simp_all
  then show ?thesis using False by (simp add: trunc_toward_zero_def)
qed

lemma round_trip_zero:
  assumes sc: "0 < sc" and xr: "in_int_range x"
    and d: "float_div (float_of_int x) sc = Some d"
    and t_lo: "- 128 \<le> trunc_toward_zero d" and t_hi: "trunc_toward_zero d \<le> 127"
  shows "\<exists>y. dequantize sc 0 (quantize e sc 0 x) = Some y \<and>
             \<bar>y - of_int x\<bar> < sc + (\<bar>of_int x\<bar> + 128 * sc) / 2 ^ 22 + (1 + sc) / 2 ^ 148 \<and>
             \<bar>y - of_int x\<bar> < sc + sc / 2 ^ 13 + 1 / 2 ^ 140"
proof -
  define t where "t = trunc_toward_zero d"
  define a :: rat where "a = of_int x"
  define b :: rat where "b = of_int t"
  have w: "wrap_int x = x" using xr by (simp add: wrap_int_id)
  obtain n where n: "f32 a = Some n" and d': "f32 (n / sc) = Some d"
    using float_div_Some[OF d] by (auto simp: float_of_int_def a_def)
  have q: "sint (quantize e sc 0 x) = t"
    unfolding t_def by (rule quantize_in_range) (simp_all add: w d t_lo t_hi)
  have tr: "in_int_range t" using t_lo t_hi by (simp add: in_int_range_def t_def)
  have dq: "dequantize sc 0 (quantize e sc 0 x) = float_mul (f32 b) sc"
    using tr by (simp add: dequantize_def q wrap_int_id float_of_int_def b_def)
  have b_abs: "\<bar>b\<bar> \<le> 128"
  proof -
    have "\<bar>t\<bar> \<le> 128" using t_lo t_hi by (simp add: t_def)
    then have "(of_int \<bar>t\<bar> :: rat) \<le> of_int 128" by (simp only: of_int_le_iff)
    then show ?thesis by (simp add: b_def)
  qed
  have a_abs: "\<bar>a\<bar> \<le> 2 ^ 31"
  proof -
    have "\<bar>x\<bar> \<le> 2 ^ 31" using xr by (auto simp: in_int_range_def)
    then have "(of_int \<bar>x\<bar> :: rat) \<le> of_int (2 ^ 31)" by (simp only: of_int_le_iff)
    then show ?thesis by (simp add: a_def)
  qed
  obtain m where m: "f32 b = Some m"
    using f32_finite[of b] b_abs by auto
  have e_n: "\<bar>n - a\<bar> \<le> \<bar>a\<bar> / 2 ^ 24 + 1 / 2 ^ 150" by (rule f32_error[OF n])
  have e_d: "\<bar>d - n / sc\<bar> \<le> \<bar>n / sc\<bar> / 2 ^ 24 + 1 / 2 ^ 150" by (rule f32_error[OF d'])
  have e_m: "\<bar>m - b\<bar> \<le> \<bar>b\<bar> / 2 ^ 24 + 1 / 2 ^ 150" by (rule f32_error[OF m])
  have e_t: "\<bar>b - d\<bar> < 1" unfolding b_def t_def by (rule trunc_toward_zero_close)
  have m_abs: "\<bar>m\<bar> \<le> 129" using e_m b_abs by simp
  have n_abs: "\<bar>n\<bar> \<le> 2 ^ 32" using e_n a_abs by simp
  have fin: "\<bar>m * sc\<bar> \<le> 2 ^ 127"
  proof (cases "sc \<le> 2 ^ 34")
    case True
    have "\<bar>m\<bar> * sc \<le> 129 * 2 ^ 34"
      using m_abs True sc by (intro mult_mono) simp_all
    then show ?thesis using sc by (simp add: abs_mult)
  next
    case False
    have "\<bar>n\<bar> / sc < 1 / 4"
      using n_abs False sc by (simp add: divide_less_eq)
    define Q where "Q = \<bar>n / sc\<bar>"
    have "Q < 1 / 4" using \<open>\<bar>n\<bar> / sc < 1 / 4\<close> sc by (simp add: Q_def)
    moreover have "\<bar>d\<bar> \<le> Q + \<bar>d - n / sc\<bar>" unfolding Q_def by linarith
    moreover have "\<bar>d - n / sc\<bar> \<le> Q / 2 ^ 24 + 1 / 2 ^ 150" using e_d by (simp only: Q_def)
    ultimately have "\<bar>d\<bar> < 1" by simp
    then have "t = 0" unfolding t_def by (rule trunc_toward_zero_small)
    then have "m = 0" using m by (simp add: b_def f32_zero)
    then show ?thesis by simp
  qed
  obtain y where y: "f32 (m * sc) = Some y"
    using f32_finite[OF fin] by blast
  have e_y: "\<bar>y - m * sc\<bar> \<le> \<bar>m * sc\<bar> / 2 ^ 24 + 1 / 2 ^ 150" by (rule f32_error[OF y])
  have dqy: "dequantize sc 0 (quantize e sc 0 x) = Some y"
    unfolding dq by (simp add: m y float_mul_def)
  define A where "A = \<bar>a\<bar>"
  define B where "B = \<bar>b\<bar> * sc"
  define M where "M = \<bar>m\<bar> * sc"
  define N where "N = \<bar>n\<bar>"
  define ya where "ya = \<bar>y - m * sc\<bar>"
  define mb where "mb = \<bar>(m - b) * sc\<bar>"
  define td where "td = \<bar>(b - d) * sc\<bar>"
  define dn where "dn = \<bar>(d - n / sc) * sc\<bar>"
  define na where "na = \<bar>n - a\<bar>"
  have nonneg: "0 \<le> A" "0 \<le> B" "0 \<le> N"
    using sc by (simp_all add: A_def B_def N_def)
  have 1: "ya \<le> M / 2 ^ 24 + 1 / 2 ^ 150"
    using e_y sc by (simp add: ya_def M_def abs_mult)
  have 2: "mb \<le> B / 2 ^ 24 + sc / 2 ^ 150"
  proof -
    have "\<bar>m - b\<bar> * sc \<le> (\<bar>b\<bar> / 2 ^ 24 + 1 / 2 ^ 150) * sc"
      using e_m sc by (intro mult_right_mono) simp_all
    moreover have "mb = \<bar>m - b\<bar> * sc" using sc by (simp add: mb_def abs_mult)
    moreover have "(\<bar>b\<bar> / 2 ^ 24 + 1 / 2 ^ 150) * sc = B / 2 ^ 24 + sc / 2 ^ 150"
      by (simp add: B_def algebra_simps)
    ultimately show ?thesis by simp
  qed
  have 3: "M \<le> B + B / 2 ^ 24 + sc / 2 ^ 150"
  proof -
    have "\<bar>m\<bar> \<le> \<bar>b\<bar> + \<bar>m - b\<bar>" by simp
    then have "\<bar>m\<bar> \<le> \<bar>b\<bar> + (\<bar>b\<bar> / 2 ^ 24 + 1 / 2 ^ 150)" using e_m by linarith
    then have "\<bar>m\<bar> * sc \<le> (\<bar>b\<bar> + (\<bar>b\<bar> / 2 ^ 24 + 1 / 2 ^ 150)) * sc"
      using sc by (intro mult_right_mono) simp_all
    moreover have "(\<bar>b\<bar> + (\<bar>b\<bar> / 2 ^ 24 + 1 / 2 ^ 150)) * sc = B + B / 2 ^ 24 + sc / 2 ^ 150"
      by (simp add: B_def algebra_simps)
    ultimately show ?thesis by (simp only: M_def)
  qed
  have 4: "B \<le> 128 * sc"
    unfolding B_def using b_abs sc by (intro mult_right_mono) simp_all
  have 5: "td < sc"
  proof -
    have "\<bar>b - d\<bar> * sc < 1 * sc" using e_t sc by (rule mult_strict_right_mono)
    moreover have "td = \<bar>b - d\<bar> * sc" using sc by (simp add: td_def abs_mult)
    ultimately show ?thesis by simp
  qed
  have 6: "dn \<le> N / 2 ^ 24 + sc / 2 ^ 150"
  proof -
    have "\<bar>d - n / sc\<bar> * sc \<le> (\<bar>n / sc\<bar> / 2 ^ 24 + 1 / 2 ^ 150) * sc"
      using e_d sc by (intro mult_right_mono) simp_all
    moreover have "\<bar>n / sc\<bar> * sc = \<bar>n\<bar>" using sc by simp
    moreover have "(\<bar>n / sc\<bar> / 2 ^ 24 + 1 / 2 ^ 150) * sc = \<bar>n / sc\<bar> * sc / 2 ^ 24 + sc / 2 ^ 150"
      by (simp add: algebra_simps)
    moreover have "dn = \<bar>d - n / sc\<bar> * sc" using sc by (simp add: dn_def abs_mult)
    ultimately show ?thesis by (simp only: N_def)
  qed
  have 7: "na \<le> A / 2 ^ 24 + 1 / 2 ^ 150"
    using e_n by (simp add: na_def A_def)
  have 8: "N \<le> A + A / 2 ^ 24 + 1 / 2 ^ 150"
  proof -
    have "\<bar>n\<bar> \<le> \<bar>a\<bar> + \<bar>n - a\<bar>" by simp
    then show ?thesis using e_n by (simp add: N_def A_def)
  qed
  have split: "y - a = (y - m * sc) + (m - b) * sc + (b - d) * sc + (d - n / sc) * sc + (n - a)"
    using sc by (simp add: algebra_simps)
  have total: "\<bar>y - a\<bar> \<le> ya + mb + td + dn + na"
    unfolding split ya_def mb_def td_def dn_def na_def by linarith
  have p1: "ya \<le> B / 2 ^ 23 + sc / 2 ^ 150 + 1 / 2 ^ 150"
    using 1 3 nonneg sc by simp
  have p2: "dn \<le> A / 2 ^ 23 + 1 / 2 ^ 150 + sc / 2 ^ 150"
    using 6 8 nonneg sc by simp
  have p3: "ya + mb \<le> B / 2 ^ 22 + (1 / 2 ^ 149 + sc / 2 ^ 149)"
    using p1 2 nonneg sc by simp
  have p4: "dn + na \<le> A / 2 ^ 22 + (1 / 2 ^ 149 + sc / 2 ^ 149)"
    using p2 7 nonneg sc by simp
  define W where "W = 128 * sc / 2 ^ 22"
  have p5: "B / 2 ^ 22 \<le> W"
    unfolding W_def using 4 by (simp add: divide_right_mono)
  have p6: "ya + mb + (dn + na) \<le> A / 2 ^ 22 + W + (1 / 2 ^ 148 + sc / 2 ^ 148)"
    using p3 p4 p5 by simp
  have first: "\<bar>y - a\<bar> < sc + (A / 2 ^ 22 + W + (1 / 2 ^ 148 + sc / 2 ^ 148))"
    using total p6 5 by simp
  have d_abs: "\<bar>d\<bar> \<le> 129" using e_t b_abs by linarith
  have ds: "\<bar>d * sc\<bar> \<le> 129 * sc"
  proof -
    have "\<bar>d\<bar> * sc \<le> 129 * sc" using d_abs sc by (intro mult_right_mono) simp_all
    then show ?thesis using sc by (simp add: abs_mult)
  qed
  have "n = d * sc - (d - n / sc) * sc" using sc by (simp add: algebra_simps)
  then have "N \<le> \<bar>d * sc\<bar> + dn" unfolding N_def dn_def by linarith
  then have N1: "N \<le> 129 * sc + N / 2 ^ 24 + sc / 2 ^ 150" using ds 6 by linarith
  have N2: "N \<le> 130 * sc" using N1 sc by simp
  have "a = n - (n - a)" by simp
  then have "A \<le> N + na" unfolding A_def N_def na_def by linarith
  then have A1: "A \<le> 130 * sc + A / 2 ^ 24 + 1 / 2 ^ 150" using N2 7 by linarith
  have A2: "A \<le> 131 * sc + 1 / 2 ^ 149" using A1 sc by simp
  have "A / 2 ^ 22 \<le> (131 * sc + 1 / 2 ^ 149) / 2 ^ 22"
    using A2 by (simp add: divide_right_mono)
  then have A3: "A / 2 ^ 22 \<le> 131 * sc / 2 ^ 22 + 1 / 2 ^ 171"
    by (simp add: add_divide_distrib)
  have second: "\<bar>y - a\<bar> < sc + sc / 2 ^ 13 + 1 / 2 ^ 140"
    using first A3 sc unfolding W_def by simp
  have "\<bar>y - a\<bar> < sc + (A + 128 * sc) / 2 ^ 22 + (1 + sc) / 2 ^ 148"
    using first unfolding W_def by (simp add: add_divide_distrib)
  then show ?thesis
    using dqy second unfolding A_def a_def by blast
qed


subsection \<open>Runs in the concrete environments\<close>

lemma demo_line_runs:
  "fault_of (run demo_env (''1,2,3,4,5,6,7'' @ [CR]) (setup_sketch demo_env)) = None"
  by code_simp

lemma demo_line_prints:
  "PrintlnInt 7 \<in> set (trace_of (run demo_env (''1,2,3,4,5,6,7'' @ [CR]) (setup_sketch demo_env)))"
  by code_simp


lemma demo_quantize_loop:
  "quantize_loop demo_env (params_scale demo_tensor) (params_zero_point demo_tensor)
     [1, 2, 3, 4, 5, 6, 7] (data_int8 demo_tensor) 0 = Some [10, 20, 30, 40, 50, 60, 70]"
  by code_simp

lemma demo_dequantize:
  "nearest_integer (7 / 2) 4" "in_int_range 4"
  "nearest_integer 200 200" "in_int_range 200"
  "in_int_range (sint (70 :: 8 word) - 0)"
  "dequantize (13421773 / 134217728) 0 70 = Some 7"
  "clamp_prediction demo_env (Some 7) = 7"
  by code_simp+

section \<open>Properties\<close>

subsection \<open>The line buffer\<close>





text \<open>
  Claim C6, as the code has it.  \<open>loop\<close> stores every received byte, the carriage
  return included, before it looks at it.  So when the carriage return arrives after the
  bytes \<open>l\<close> received since the last reset (at most 62 of them, none of them NUL), the
  pass does what \<open>process_input\<close> does with the string \<open>l\<close> followed by the carriage
  return byte, not with \<open>l\<close> alone, and then clears the buffer and sets the cursor to
  0.  The pass returns, with the buffer empty, whenever both tensors are set and large
  enough, and whenever the line has fewer than seven tokens.
\<close>

theorem C6_line_handed_to_tokenizer:
  assumes "buffer_empty s" "CR \<notin> set l" "NUL \<notin> set l" "length l + 2 \<le> INPUT_BUFFER_SIZE"
  shows "run e (l @ [CR]) s = then_clear (line_outcome e (l @ [CR]) (line_state l s)) \<and>
         (\<forall>s'. run e (l @ [CR]) s = Inr s' \<longrightarrow> buffer_empty s') \<and>
         (tensors_ok s \<and> (\<forall>d. invoke e d \<noteq> Some []) \<longrightarrow>
            (\<exists>s'. run e (l @ [CR]) s = Inr s' \<and> buffer_empty s')) \<and>
         (length (input_array s) = INT_ARRAY_SIZE \<and>
          length (tokens (l @ [CR])) < INT_ARRAY_SIZE \<longrightarrow>
            (\<exists>s'. run e (l @ [CR]) s = Inr s' \<and> buffer_empty s'))"
proof (intro conjI allI impI)
  have lt: "length l < INPUT_BUFFER_SIZE" using assms(4) by simp
  show eq: "run e (l @ [CR]) s = then_clear (line_outcome e (l @ [CR]) (line_state l s))"
    unfolding run_line[OF assms(1,2) lt] process_input_line_outcome
      c_string_line_state[OF assms(2-4)] ..
  show "buffer_empty s'" if "run e (l @ [CR]) s = Inr s'" for s'
    using that unfolding eq then_clear_Inr by (auto simp: clear_buffer_empty)
  {
    assume a: "tensors_ok s \<and> (\<forall>d. invoke e d \<noteq> Some [])"
    have "tensors_ok (line_state l s)"
      using a by (simp add: tensors_ok_def line_state_def emit_def)
    from line_outcome_total[OF this conjunct2[OF a], of "l @ [CR]"]
    show "\<exists>s'. run e (l @ [CR]) s = Inr s' \<and> buffer_empty s'"
      unfolding eq by (auto simp: clear_buffer_empty)
  }
  {
    assume a: "length (input_array s) = INT_ARRAY_SIZE \<and>
          length (tokens (l @ [CR])) < INT_ARRAY_SIZE"
    from run_short_line[OF assms conjunct1[OF a] conjunct2[OF a], of e]
    show "\<exists>s'. run e (l @ [CR]) s = Inr s' \<and> buffer_empty s'" by blast
  }
qed

theorem C6_line_handed_to_tokenizer_witness:
  "buffer_empty (setup_sketch demo_env) \<and> CR \<notin> set ''1,2,3,4,5,6,7'' \<and>
   NUL \<notin> set ''1,2,3,4,5,6,7'' \<and> length ''1,2,3,4,5,6,7'' + 2 \<le> INPUT_BUFFER_SIZE \<and>
   run demo_env (''1,2,3,4,5,6,7'' @ [CR]) (setup_sketch demo_env) =
     then_clear (line_outcome demo_env (''1,2,3,4,5,6,7'' @ [CR])
                   (line_state ''1,2,3,4,5,6,7'' (setup_sketch demo_env))) \<and>
   tensors_ok (setup_sketch demo_env) \<and> (\<forall>d. invoke demo_env d \<noteq> Some []) \<and>
   (\<exists>s'. run demo_env (''1,2,3,4,5,6,7'' @ [CR]) (setup_sketch demo_env) = Inr s' \<and>
         buffer_empty s') \<and>
   buffer_empty (setup_sketch failing_env) \<and> CR \<notin> set ''1,2'' \<and> NUL \<notin> set ''1,2'' \<and>
   length ''1,2'' + 2 \<le> INPUT_BUFFER_SIZE \<and>
   length (input_array (setup_sketch failing_env)) = INT_ARRAY_SIZE \<and>
   length (tokens (''1,2'' @ [CR])) < INT_ARRAY_SIZE \<and>
   (\<exists>s'. run failing_env (''1,2'' @ [CR]) (setup_sketch failing_env) = Inr s' \<and>
         buffer_empty s')"
proof -
  have h: "CR \<notin> set ''1,2,3,4,5,6,7''" "NUL \<notin> set ''1,2,3,4,5,6,7''"
    "length ''1,2,3,4,5,6,7'' + 2 \<le> INPUT_BUFFER_SIZE"
    by (simp_all add: CR_def NUL_def INPUT_BUFFER_SIZE_def)
  have g: "CR \<notin> set ''1,2''" "NUL \<notin> set ''1,2''" "length ''1,2'' + 2 \<le> INPUT_BUFFER_SIZE"
    by (simp_all add: CR_def NUL_def INPUT_BUFFER_SIZE_def)
  have t: "length (tokens (''1,2'' @ [CR])) < INT_ARRAY_SIZE" by code_simp
  have tk: "tensors_ok (setup_sketch demo_env)"
    by (rule setup_sketch_tensors_ok[OF demo_env_ready])
  have inv: "\<forall>d. invoke demo_env d \<noteq> Some []"
    using demo_env_ready(2) by (simp add: well_formed_def)
  note A = C6_line_handed_to_tokenizer[OF setup_sketch_buffer_empty[of demo_env] h,
      where e = demo_env]
  note B = C6_line_handed_to_tokenizer[OF setup_sketch_buffer_empty[of failing_env] g,
      where e = failing_env]
  have 1: "run demo_env (''1,2,3,4,5,6,7'' @ [CR]) (setup_sketch demo_env) =
     then_clear (line_outcome demo_env (''1,2,3,4,5,6,7'' @ [CR])
                   (line_state ''1,2,3,4,5,6,7'' (setup_sketch demo_env)))"
    by (rule A[THEN conjunct1])
  have 2: "\<exists>s'. run demo_env (''1,2,3,4,5,6,7'' @ [CR]) (setup_sketch demo_env) = Inr s' \<and>
         buffer_empty s'"
    using A[THEN conjunct2, THEN conjunct2, THEN conjunct1] conjI[OF tk inv] by (rule mp)
  have 3: "\<exists>s'. run failing_env (''1,2'' @ [CR]) (setup_sketch failing_env) = Inr s' \<and>
         buffer_empty s'"
    using B[THEN conjunct2, THEN conjunct2, THEN conjunct2]
      conjI[OF setup_sketch_array_length[of failing_env] t] by (rule mp)
  show ?thesis
    by (intro conjI setup_sketch_buffer_empty h g t tk inv 1 2 3 setup_sketch_array_length)
qed

text \<open>
  The claim as stated (the terminator is not part of what the tokenizer receives) fails for
  the line \<open>7,6,5,4,3,2,\<close>: handed over without the terminator it would give six tokens
  and the arity error; the sketch reads a seventh integer 0 from the terminator and invokes
  the interpreter.  The terminator is no more all that follows the bytes of the line when
  one of them is NUL (the string handed over ends there: the line
  \<open>1,2,3\<close> NUL \<open>,4,5,6,7\<close> gives three tokens), nor when the line has 63 bytes and the
  byte behind the buffer is not NUL (with \<open>8\<close> there, the seventh integer read is 8).
\<close>

theorem C6_terminator_excluded_counterexample:
  "Println ''Error: Please enter exactly 7 integers.'' \<in>
     set (trace_of (then_clear (line_outcome demo_env ''7,6,5,4,3,2,''
            (line_state ''7,6,5,4,3,2,'' (setup_sketch demo_env))))) \<and>
   Println ''Error: Please enter exactly 7 integers.'' \<notin>
     set (trace_of (run demo_env (''7,6,5,4,3,2,'' @ [CR]) (setup_sketch demo_env))) \<and>
   array_of (run demo_env (''7,6,5,4,3,2,'' @ [CR]) (setup_sketch demo_env)) =
     [7, 6, 5, 4, 3, 2, 0] \<and>
   array_of (run demo_env ((''1,2,3'' @ [NUL] @ '',4,5,6,7'') @ [CR]) (setup_sketch demo_env)) =
     [1, 2, 3, 0, 0, 0, 0] \<and>
   array_of (line_outcome demo_env ((''1,2,3'' @ [NUL] @ '',4,5,6,7'') @ [CR])
               (line_state (''1,2,3'' @ [NUL] @ '',4,5,6,7'') (setup_sketch demo_env))) =
     [1, 2, 3, 4, 5, 6, 7] \<and>
   length (replicate 51 (CHR '' '') @ ''1,2,3,4,5,6,'') = 63 \<and>
   array_of (run spill_env ((replicate 51 (CHR '' '') @ ''1,2,3,4,5,6,'') @ [CR])
               (setup_sketch spill_env)) = [1, 2, 3, 4, 5, 6, 8] \<and>
   array_of (line_outcome spill_env ((replicate 51 (CHR '' '') @ ''1,2,3,4,5,6,'') @ [CR])
               (line_state (replicate 51 (CHR '' '') @ ''1,2,3,4,5,6,'') (setup_sketch spill_env))) =
     [1, 2, 3, 4, 5, 6, 0]"
  by code_simp


text \<open>
  Claim C4, as the code has it.  The overflow branch clears the buffer in the pass that
  stores the 64th byte, and the sketch has no state that discards the rest of an oversized
  line.  So after \<open>64 * k\<close> bytes other than the carriage return the buffer is empty
  again, with only their echo left in the trace, and a line of at most 62 bytes that
  follows is handed to the tokenizer on its own and processed exactly as it would be
  without the discarded bytes.
\<close>

theorem C4_overflow_recovery:
  assumes "buffer_empty s" "CR \<notin> set junk" "length junk = INPUT_BUFFER_SIZE * k"
    and "CR \<notin> set l" "NUL \<notin> set l" "length l + 2 \<le> INPUT_BUFFER_SIZE"
  shows "run e junk s = Inr (emit (map Echo junk) s) \<and>
         buffer_empty (emit (map Echo junk) s) \<and>
         (\<exists>s1. run e (junk @ l) s = Inr s1 \<and> tokenizer_input e s1 = Some (l @ [CR])) \<and>
         run e (junk @ l @ [CR]) s = run e (l @ [CR]) (emit (map Echo junk) s) \<and>
         run e (junk @ l @ [CR]) s =
           then_clear (line_outcome e (l @ [CR]) (line_state l (emit (map Echo junk) s)))"
proof -
  have r: "run e junk s = Inr (emit (map Echo junk) s)"
    by (rule run_junk[OF assms(1-3)])
  have e: "buffer_empty (emit (map Echo junk) s)"
    using assms(1) by (simp add: buffer_empty_emit)
  have lt: "length l < INPUT_BUFFER_SIZE" using assms(6) by simp
  obtain s1 where "run e l (emit (map Echo junk) s) = Inr s1"
    "tokenizer_input e s1 = Some (l @ [CR])"
    using tokenizer_input_fill[OF e assms(4-6), of e] by blast
  then have 1: "\<exists>s1. run e (junk @ l) s = Inr s1 \<and> tokenizer_input e s1 = Some (l @ [CR])"
    using r by (simp add: run_append)
  have 2: "run e (junk @ l @ [CR]) s = run e (l @ [CR]) (emit (map Echo junk) s)"
    using r by (simp add: run_append)
  have 3: "run e (l @ [CR]) (emit (map Echo junk) s) =
             then_clear (line_outcome e (l @ [CR]) (line_state l (emit (map Echo junk) s)))"
    unfolding run_line[OF e assms(4) lt] process_input_line_outcome
      c_string_line_state[OF assms(4-6)] ..
  show ?thesis using r e 1 2 3 by simp
qed

theorem C4_overflow_recovery_witness:
  "buffer_empty (setup_sketch demo_env) \<and> CR \<notin> set (replicate 64 (CHR ''a'')) \<and>
   length (replicate 64 (CHR ''a'')) = INPUT_BUFFER_SIZE * 1 \<and>
   CR \<notin> set ''1,2,3,4,5,6,7'' \<and> NUL \<notin> set ''1,2,3,4,5,6,7'' \<and>
   length ''1,2,3,4,5,6,7'' + 2 \<le> INPUT_BUFFER_SIZE \<and>
   line_handed demo_env (replicate 64 (CHR ''a'') @ ''1,2,3,4,5,6,7'') =
     Some (''1,2,3,4,5,6,7'' @ [CR]) \<and>
   array_of (run demo_env (replicate 64 (CHR ''a'') @ ''1,2,3,4,5,6,7'' @ [CR])
               (setup_sketch demo_env)) = [1, 2, 3, 4, 5, 6, 7]"
proof -
  have h: "CR \<notin> set (replicate 64 (CHR ''a''))"
    "length (replicate 64 (CHR ''a'')) = INPUT_BUFFER_SIZE * 1"
    "CR \<notin> set ''1,2,3,4,5,6,7''" "NUL \<notin> set ''1,2,3,4,5,6,7''"
    "length ''1,2,3,4,5,6,7'' + 2 \<le> INPUT_BUFFER_SIZE"
    by (simp_all add: CR_def NUL_def INPUT_BUFFER_SIZE_def)
  note c4 = C4_overflow_recovery[OF setup_sketch_buffer_empty[of demo_env] h, where e = demo_env]
  from c4 have 1: "line_handed demo_env (replicate 64 (CHR ''a'') @ ''1,2,3,4,5,6,7'') =
     Some (''1,2,3,4,5,6,7'' @ [CR])"
    by (auto simp: line_handed_def)
  have "array_of (run demo_env (''1,2,3,4,5,6,7'' @ [CR])
       (emit (map Echo (replicate 64 (CHR ''a''))) (setup_sketch demo_env))) = [1, 2, 3, 4, 5, 6, 7]"
    by code_simp
  then have 2: "array_of (run demo_env (replicate 64 (CHR ''a'') @ ''1,2,3,4,5,6,7'' @ [CR])
               (setup_sketch demo_env)) = [1, 2, 3, 4, 5, 6, 7]"
    using c4 by simp
  show ?thesis
    by (intro conjI setup_sketch_buffer_empty h 1 2)
qed

text \<open>
  The claim as stated (any number of bytes above 64) fails for 65 bytes: the 65th byte
  starts the next line, the tokenizer receives \<open>a1,2,3,4,5,6,7\<close> and the first integer
  read is 0, not 1.
\<close>

theorem C4_more_than_64_counterexample:
  "line_handed demo_env (replicate 65 (CHR ''a'') @ ''1,2,3,4,5,6,7'') =
     Some (''a1,2,3,4,5,6,7'' @ [CR]) \<and>
   array_of (run demo_env (replicate 65 (CHR ''a'') @ ''1,2,3,4,5,6,7'' @ [CR])
               (setup_sketch demo_env)) = [0, 2, 3, 4, 5, 6, 7] \<and>
   array_of (run demo_env (''1,2,3,4,5,6,7'' @ [CR]) (setup_sketch demo_env)) =
     [1, 2, 3, 4, 5, 6, 7]"
  by code_simp


subsection \<open>The tokenizer and the arity check\<close>

text \<open>
  Claim C1, as the code has it.  \<open>string_to_array\<close> leaves its loop as soon as it has
  stored seven integers, so the count it returns is the number of tokens of the line
  capped at 7.  For every line with fewer than seven tokens \<open>process_input\<close> prints the
  error line and returns: the trace grows by that line only (no \<open>Invoke\<close> event) and
  both tensors are as before.  A line with seven or more tokens is not rejected: it is
  processed as its first seven tokens.
\<close>

theorem C1_arity_check:
  assumes "c_string e s = line" "length (input_array s) = INT_ARRAY_SIZE"
  shows "(length (tokens line) < INT_ARRAY_SIZE \<longrightarrow>
            (\<exists>s'. process_input e s = Inr s' \<and>
                  trace s' = trace s @ [Println ''Error: Please enter exactly 7 integers.''] \<and>
                  input_tensor s' = input_tensor s \<and> output_tensor s' = output_tensor s)) \<and>
         (INT_ARRAY_SIZE \<le> length (tokens line) \<longrightarrow>
            process_input e s =
              measure_and_run_model e
                (s\<lparr>input_array := map (atoi e) (take INT_ARRAY_SIZE (tokens line))\<rparr>))"
proof (intro conjI impI)
  assume "length (tokens line) < INT_ARRAY_SIZE"
  from process_input_few[OF assms this]
  show "\<exists>s'. process_input e s = Inr s' \<and>
                  trace s' = trace s @ [Println ''Error: Please enter exactly 7 integers.''] \<and>
                  input_tensor s' = input_tensor s \<and> output_tensor s' = output_tensor s"
    by (simp add: emit_def)
next
  assume "INT_ARRAY_SIZE \<le> length (tokens line)"
  from process_input_enough[OF assms this]
  show "process_input e s =
              measure_and_run_model e
                (s\<lparr>input_array := map (atoi e) (take INT_ARRAY_SIZE (tokens line))\<rparr>)" .
qed

theorem C1_arity_check_witness:
  "length ((''1,2,3'' @ [CR]) @ replicate 58 NUL) = INPUT_BUFFER_SIZE \<and>
   length ((''1,2,3,4,5,6,7,8'' @ [CR]) @ replicate 48 NUL) = INPUT_BUFFER_SIZE \<and>
   (\<exists>s'. process_input demo_env
           ((setup_sketch demo_env)\<lparr>in_str_buff := (''1,2,3'' @ [CR]) @ replicate 58 NUL\<rparr>) = Inr s' \<and>
         trace s' = trace (setup_sketch demo_env) @ [Println ''Error: Please enter exactly 7 integers.''] \<and>
         input_tensor s' = input_tensor (setup_sketch demo_env)) \<and>
   process_input demo_env
     ((setup_sketch demo_env)\<lparr>in_str_buff := (''1,2,3,4,5,6,7,8'' @ [CR]) @ replicate 48 NUL\<rparr>) =
   measure_and_run_model demo_env
     ((setup_sketch demo_env)\<lparr>in_str_buff := (''1,2,3,4,5,6,7,8'' @ [CR]) @ replicate 48 NUL,
                               input_array := [1, 2, 3, 4, 5, 6, 7]\<rparr>)"
proof -
  have len: "length (input_array (setup_sketch demo_env)) = INT_ARRAY_SIZE"
    by (rule setup_sketch_array_length)
  have nn: "NUL \<notin> set (''1,2,3'' @ [CR])" "NUL \<notin> set (''1,2,3,4,5,6,7,8'' @ [CR])"
    by (simp_all add: NUL_def CR_def)
  have 1: "length (tokens (''1,2,3'' @ [CR])) < INT_ARRAY_SIZE"
    unfolding tokens_3 by (simp add: INT_ARRAY_SIZE_def)
  have 2: "INT_ARRAY_SIZE \<le> length (tokens (''1,2,3,4,5,6,7,8'' @ [CR]))"
    by (rule tokens_8(1))
  have t: "map (atoi demo_env) (take INT_ARRAY_SIZE (tokens (''1,2,3,4,5,6,7,8'' @ [CR]))) =
             [1, 2, 3, 4, 5, 6, 7]"
    by (rule tokens_8(2))
  define sA where "sA = (setup_sketch demo_env)\<lparr>in_str_buff := (''1,2,3'' @ [CR]) @ replicate 58 NUL\<rparr>"
  define sB where "sB = (setup_sketch demo_env)\<lparr>in_str_buff := (''1,2,3,4,5,6,7,8'' @ [CR]) @ replicate 48 NUL\<rparr>"
  have cA: "c_string demo_env sA = ''1,2,3'' @ [CR]"
    by (rule c_string_pad[OF nn(1), of 58]) (simp_all add: sA_def)
  have cB: "c_string demo_env sB = ''1,2,3,4,5,6,7,8'' @ [CR]"
    by (rule c_string_pad[OF nn(2), of 48]) (simp_all add: sB_def)
  have lA: "length (input_array sA) = INT_ARRAY_SIZE" using len by (simp add: sA_def)
  have lB: "length (input_array sB) = INT_ARRAY_SIZE" using len by (simp add: sB_def)
  have "\<exists>s'. process_input demo_env sA = Inr s' \<and>
         trace s' = trace sA @ [Println ''Error: Please enter exactly 7 integers.''] \<and>
         input_tensor s' = input_tensor sA"
    using C1_arity_check[OF cA lA] 1 by blast
  then have A: "\<exists>s'. process_input demo_env sA = Inr s' \<and>
         trace s' = trace (setup_sketch demo_env) @ [Println ''Error: Please enter exactly 7 integers.''] \<and>
         input_tensor s' = input_tensor (setup_sketch demo_env)"
    by (simp add: sA_def)
  have "process_input demo_env sB =
             measure_and_run_model demo_env
               (sB\<lparr>input_array := map (atoi demo_env) (take INT_ARRAY_SIZE (tokens (''1,2,3,4,5,6,7,8'' @ [CR])))\<rparr>)"
    using C1_arity_check[OF cB lB] 2 by blast
  then have B: "process_input demo_env sB =
             measure_and_run_model demo_env (sB\<lparr>input_array := [1, 2, 3, 4, 5, 6, 7]\<rparr>)"
    unfolding t .
  have L: "length ((''1,2,3'' @ [CR]) @ replicate 58 NUL) = INPUT_BUFFER_SIZE"
    "length ((''1,2,3,4,5,6,7,8'' @ [CR]) @ replicate 48 NUL) = INPUT_BUFFER_SIZE"
    by (simp_all add: INPUT_BUFFER_SIZE_def)
  show ?thesis
    using A B L unfolding sA_def sB_def by simp
qed

text \<open>
  The claim as stated (a line with more than seven tokens is rejected) fails for the line
  \<open>1,2,3,4,5,6,7,8\<close>: it has eight tokens, the interpreter is invoked on the
  quantized first seven, and no error line is printed.
\<close>

theorem C1_more_than_7_counterexample:
  "length (tokens (''1,2,3,4,5,6,7,8'' @ [CR])) = 8 \<and>
   Invoke [10, 20, 30, 40, 50, 60, 70] \<in>
     set (trace_of (run demo_env (''1,2,3,4,5,6,7,8'' @ [CR]) (setup_sketch demo_env))) \<and>
   Println ''Error: Please enter exactly 7 integers.'' \<notin>
     set (trace_of (run demo_env (''1,2,3,4,5,6,7,8'' @ [CR]) (setup_sketch demo_env)))"
  by code_simp


text \<open>
  Claim C8, as the code has it.  No token makes the line fail: the number of tokens does
  not depend on what the tokens contain, and \<open>atoi\<close> returns an \<open>int\<close> for every
  token.  Every token consists of white space, an optional sign, a run of digits and a
  rest that does not start with a digit; its value is the number the digits denote,
  negated after a minus sign, whatever the rest is (for a number outside \<open>int\<close>, what the
  platform makes of it).  So a token without digits in that place has the value 0, and a
  token like \<open>3x\<close> has the value 3.  The line \<open>1,2,x,4,5,6,7\<close> with its carriage
  return has seven tokens, gives the integers 1, 2, 0, 4, 5, 6, 7 and goes on to
  \<open>measure_and_run_model\<close>.
\<close>

theorem C8_malformed_tokens:
  "(\<exists>ws sg ds rest. tok = ws @ sg @ ds @ rest \<and> token_parts ws sg ds rest) \<and>
   (token_parts ws sg ds rest \<longrightarrow>
      atoi e (ws @ sg @ ds @ rest) =
        (let v = (if sg = ''-'' then - decimal ds else decimal ds)
         in if in_int_range v then v else wrap_int (atoi_overflow e v))) \<and>
   (token_parts ws sg [] rest \<longrightarrow> atoi e (ws @ sg @ rest) = 0) \<and>
   in_int_range (atoi e tok) \<and>
   (length arr = INT_ARRAY_SIZE \<longrightarrow>
      fst (string_to_array e line arr) = min INT_ARRAY_SIZE (length (tokens line))) \<and>
   tokens (''1,2,x,4,5,6,7'' @ [CR]) = [''1'', ''2'', ''x'', ''4'', ''5'', ''6'', ''7'' @ [CR]] \<and>
   (c_string e s = ''1,2,x,4,5,6,7'' @ [CR] \<and> length (input_array s) = INT_ARRAY_SIZE \<longrightarrow>
      process_input e s = measure_and_run_model e (s\<lparr>input_array := [1, 2, 0, 4, 5, 6, 7]\<rparr>))"
proof (intro conjI impI)
  show "\<exists>ws sg ds rest. tok = ws @ sg @ ds @ rest \<and> token_parts ws sg ds rest"
    by (rule token_parts_exist)
  show "atoi e (ws @ sg @ ds @ rest) =
        (let v = (if sg = ''-'' then - decimal ds else decimal ds)
         in if in_int_range v then v else wrap_int (atoi_overflow e v))"
    if "token_parts ws sg ds rest"
    using that by (rule atoi_token_parts)
  show "atoi e (ws @ sg @ rest) = 0" if "token_parts ws sg [] rest"
    using that by (rule atoi_no_digits)
  show "in_int_range (atoi e tok)" by (rule atoi_in_int_range)
  show "fst (string_to_array e line arr) = min INT_ARRAY_SIZE (length (tokens line))"
    if "length arr = INT_ARRAY_SIZE"
    using string_to_array_tokens[OF that, of e line] by simp
  show "tokens (''1,2,x,4,5,6,7'' @ [CR]) = [''1'', ''2'', ''x'', ''4'', ''5'', ''6'', ''7'' @ [CR]]"
    by (rule tokens_x)
  assume a: "c_string e s = ''1,2,x,4,5,6,7'' @ [CR] \<and>
    length (input_array s) = INT_ARRAY_SIZE"
  have 7: "INT_ARRAY_SIZE \<le> length (tokens (''1,2,x,4,5,6,7'' @ [CR]))"
    unfolding tokens_x by (simp add: INT_ARRAY_SIZE_def)
  have t: "map (atoi e) (take INT_ARRAY_SIZE (tokens (''1,2,x,4,5,6,7'' @ [CR]))) = [1, 2, 0, 4, 5, 6, 7]"
    unfolding tokens_x by (simp add: INT_ARRAY_SIZE_def atoi_examples)
  show "process_input e s = measure_and_run_model e (s\<lparr>input_array := [1, 2, 0, 4, 5, 6, 7]\<rparr>)"
    using process_input_enough[OF conjunct1[OF a] conjunct2[OF a] 7] t by simp
qed

theorem C8_malformed_tokens_witness:
  "token_parts [] [] ''3'' ''x'' \<and> atoi demo_env ''3x'' = 3 \<and>
   token_parts '' '' ''-'' ''42'' ''abc'' \<and> atoi demo_env '' -42abc'' = - 42 \<and>
   token_parts [] [] ''2147483648'' [] \<and>
   atoi demo_env ''2147483648'' = wrap_int (atoi_overflow demo_env 2147483648) \<and>
   token_parts [] [] [] ''x'' \<and> atoi demo_env ''x'' = 0 \<and>
   length (replicate 7 (0::int)) = INT_ARRAY_SIZE \<and>
   fst (string_to_array demo_env (''1,2,x,4,5,6,7'' @ [CR]) (replicate 7 0)) = 7 \<and>
   length ((''1,2,x,4,5,6,7'' @ [CR]) @ replicate 50 NUL) = INPUT_BUFFER_SIZE \<and>
   process_input demo_env
     ((setup_sketch demo_env)\<lparr>in_str_buff := (''1,2,x,4,5,6,7'' @ [CR]) @ replicate 50 NUL\<rparr>) =
   measure_and_run_model demo_env
     ((setup_sketch demo_env)\<lparr>in_str_buff := (''1,2,x,4,5,6,7'' @ [CR]) @ replicate 50 NUL,
                               input_array := [1, 2, 0, 4, 5, 6, 7]\<rparr>) \<and>
   Invoke [10, 20, 0, 40, 50, 60, 70] \<in>
     set (trace_of (run demo_env (''1,2,x,4,5,6,7'' @ [CR]) (setup_sketch demo_env)))"
proof -
  define sA where "sA = (setup_sketch demo_env)\<lparr>in_str_buff := (''1,2,x,4,5,6,7'' @ [CR]) @ replicate 50 NUL\<rparr>"
  have p: "token_parts [] [] ''3'' ''x''" "token_parts '' '' ''-'' ''42'' ''abc''"
    "token_parts [] [] ''2147483648'' []" "token_parts [] [] [] ''x''"
    by code_simp+
  have dv: "decimal ''3'' = 3" "decimal ''42'' = 42" "decimal ''2147483648'' = 2147483648"
    by code_simp+
  have len: "length (replicate 7 (0::int)) = INT_ARRAY_SIZE" by (simp add: INT_ARRAY_SIZE_def)
  have L: "length ((''1,2,x,4,5,6,7'' @ [CR]) @ replicate 50 NUL) = INPUT_BUFFER_SIZE"
    by (simp add: INPUT_BUFFER_SIZE_def)
  have nn: "NUL \<notin> set (''1,2,x,4,5,6,7'' @ [CR])" by (simp add: NUL_def CR_def)
  have cA: "c_string demo_env sA = ''1,2,x,4,5,6,7'' @ [CR]"
    by (rule c_string_pad[OF nn, of 50]) (simp_all add: sA_def)
  have lA: "length (input_array sA) = INT_ARRAY_SIZE"
    using setup_sketch_array_length[of demo_env] by (simp add: sA_def)
  note v = C8_malformed_tokens[where e = demo_env, THEN conjunct2, THEN conjunct1, THEN mp]
  have a1: "atoi demo_env ''3x'' = 3"
    using v[OF p(1)] by (simp add: dv in_int_range_def)
  have a2: "atoi demo_env '' -42abc'' = - 42"
    using v[OF p(2)] by (simp add: dv in_int_range_def)
  have a3: "atoi demo_env ''2147483648'' = wrap_int (atoi_overflow demo_env 2147483648)"
    using v[OF p(3)] by (simp add: dv in_int_range_def)
  have a4: "atoi demo_env ''x'' = 0"
    using C8_malformed_tokens[where e = demo_env, THEN conjunct2, THEN conjunct2,
        THEN conjunct1, THEN mp, OF p(4)] by simp
  note c8 = C8_malformed_tokens[where e = demo_env and arr = "replicate 7 0"
      and line = "''1,2,x,4,5,6,7'' @ [CR]" and s = sA]
  have "fst (string_to_array demo_env (''1,2,x,4,5,6,7'' @ [CR]) (replicate 7 0)) =
          min INT_ARRAY_SIZE (length (tokens (''1,2,x,4,5,6,7'' @ [CR])))"
    using c8[THEN conjunct2, THEN conjunct2, THEN conjunct2, THEN conjunct2, THEN conjunct1]
      len by (rule mp)
  then have 2: "fst (string_to_array demo_env (''1,2,x,4,5,6,7'' @ [CR]) (replicate 7 0)) = 7"
    unfolding tokens_x by (simp add: INT_ARRAY_SIZE_def)
  have 3: "process_input demo_env sA =
           measure_and_run_model demo_env (sA\<lparr>input_array := [1, 2, 0, 4, 5, 6, 7]\<rparr>)"
    using c8[THEN conjunct2, THEN conjunct2, THEN conjunct2, THEN conjunct2, THEN conjunct2,
        THEN conjunct2] conjI[OF cA lA]
    by (rule mp)
  have 4: "Invoke [10, 20, 0, 40, 50, 60, 70] \<in>
     set (trace_of (run demo_env (''1,2,x,4,5,6,7'' @ [CR]) (setup_sketch demo_env)))"
    by code_simp
  show ?thesis
    unfolding sA_def[symmetric] by (intro conjI p a1 a2 a3 a4 len L 2 3 4)
qed

text \<open>
  The claim as stated (every token that is not a base-10 signed integer has the value 0)
  fails for the token \<open>3x\<close>: it is not an integer and its value is 3.
\<close>

theorem C8_every_invalid_token_is_zero_counterexample:
  "\<not> valid_integer ''3x'' \<and> atoi demo_env ''3x'' = 3 \<and>
   array_of (run demo_env (''1,2,3x,4,5,6,7'' @ [CR]) (setup_sketch demo_env)) =
     [1, 2, 3, 4, 5, 6, 7]"
  by code_simp


text \<open>
  Claim C10, as the code has it.  For every string handed to \<open>string_to_array\<close>, the
  tokens are its non-empty comma-separated fields: an empty field, from a leading, a
  trailing or a doubled comma, is no token, and the count is the number of non-empty
  fields capped at 7.  The string handed over for an input line ends with the carriage
  return of that line, so the field after a comma that ends the line is the carriage
  return byte, not an empty field: it is a token, of value 0.  The line \<open>1,,2,3,4,5,6\<close>
  gives six tokens and the error line, \<open>1,,2,3,4,5,6,7\<close> gives seven and is run, and
  \<open>1,2,3,4,5,6,\<close> gives seven as well (the last one 0) and is run.
\<close>

theorem C10_empty_fields_skipped:
  "tokens line = filter (\<lambda>f. f \<noteq> []) (split_commas line) \<and>
   (length arr = INT_ARRAY_SIZE \<longrightarrow>
      fst (string_to_array e line arr) =
        min INT_ARRAY_SIZE (length (filter (\<lambda>f. f \<noteq> []) (split_commas line)))) \<and>
   (length (input_array s) = INT_ARRAY_SIZE \<longrightarrow>
      (c_string e s = ''1,,2,3,4,5,6'' @ [CR] \<longrightarrow>
         process_input e s =
           Inr (emit [Println ''Error: Please enter exactly 7 integers.'']
                  (s\<lparr>input_array := [1, 2, 3, 4, 5, 6] @ drop 6 (input_array s)\<rparr>))) \<and>
      (c_string e s = ''1,,2,3,4,5,6,7'' @ [CR] \<longrightarrow>
         process_input e s = measure_and_run_model e (s\<lparr>input_array := [1, 2, 3, 4, 5, 6, 7]\<rparr>)) \<and>
      (c_string e s = ''1,2,3,4,5,6,'' @ [CR] \<longrightarrow>
         process_input e s = measure_and_run_model e (s\<lparr>input_array := [1, 2, 3, 4, 5, 6, 0]\<rparr>)))"
proof (intro conjI impI)
  show "tokens line = filter (\<lambda>f. f \<noteq> []) (split_commas line)"
    by (rule tokens_split_commas)
  show "fst (string_to_array e line arr) =
        min INT_ARRAY_SIZE (length (filter (\<lambda>f. f \<noteq> []) (split_commas line)))"
    if "length arr = INT_ARRAY_SIZE"
    using string_to_array_tokens[OF that, of e line] by (simp add: tokens_split_commas)
next
  assume len: "length (input_array s) = INT_ARRAY_SIZE"
  {
    assume c: "c_string e s = ''1,,2,3,4,5,6'' @ [CR]"
    have 6: "length (tokens (''1,,2,3,4,5,6'' @ [CR])) < INT_ARRAY_SIZE"
      unfolding tokens_6 by (simp add: INT_ARRAY_SIZE_def)
    show "process_input e s =
           Inr (emit [Println ''Error: Please enter exactly 7 integers.'']
                  (s\<lparr>input_array := [1, 2, 3, 4, 5, 6] @ drop 6 (input_array s)\<rparr>))"
      using process_input_few[OF c len 6] unfolding tokens_6
      by (simp add: atoi_examples eval_nat_numeral)
  }
  {
    assume c: "c_string e s = ''1,,2,3,4,5,6,7'' @ [CR]"
    have 7: "INT_ARRAY_SIZE \<le> length (tokens (''1,,2,3,4,5,6,7'' @ [CR]))"
      by (rule tokens_7(1))
    show "process_input e s = measure_and_run_model e (s\<lparr>input_array := [1, 2, 3, 4, 5, 6, 7]\<rparr>)"
      using process_input_enough[OF c len 7] unfolding tokens_7(2) .
  }
  {
    assume c: "c_string e s = ''1,2,3,4,5,6,'' @ [CR]"
    have 7: "INT_ARRAY_SIZE \<le> length (tokens (''1,2,3,4,5,6,'' @ [CR]))"
      unfolding tokens_trailing by (simp add: INT_ARRAY_SIZE_def)
    show "process_input e s = measure_and_run_model e (s\<lparr>input_array := [1, 2, 3, 4, 5, 6, 0]\<rparr>)"
      using process_input_enough[OF c len 7] unfolding tokens_trailing
      by (simp add: atoi_examples INT_ARRAY_SIZE_def)
  }
qed

theorem C10_empty_fields_skipped_witness:
  "length (replicate 7 (0::int)) = INT_ARRAY_SIZE \<and>
   fst (string_to_array demo_env (''1,,2,3,4,5,6'' @ [CR]) (replicate 7 0)) = 6 \<and>
   length ((''1,,2,3,4,5,6'' @ [CR]) @ replicate 51 NUL) = INPUT_BUFFER_SIZE \<and>
   length ((''1,,2,3,4,5,6,7'' @ [CR]) @ replicate 49 NUL) = INPUT_BUFFER_SIZE \<and>
   length ((''1,2,3,4,5,6,'' @ [CR]) @ replicate 51 NUL) = INPUT_BUFFER_SIZE \<and>
   process_input demo_env
     ((setup_sketch demo_env)\<lparr>in_str_buff := (''1,,2,3,4,5,6'' @ [CR]) @ replicate 51 NUL\<rparr>) =
   Inr (emit [Println ''Error: Please enter exactly 7 integers.'']
     ((setup_sketch demo_env)\<lparr>in_str_buff := (''1,,2,3,4,5,6'' @ [CR]) @ replicate 51 NUL,
                               input_array := [1, 2, 3, 4, 5, 6] @
                                 drop 6 (input_array ((setup_sketch demo_env)\<lparr>in_str_buff := (''1,,2,3,4,5,6'' @ [CR]) @ replicate 51 NUL\<rparr>))\<rparr>)) \<and>
   process_input demo_env
     ((setup_sketch demo_env)\<lparr>in_str_buff := (''1,,2,3,4,5,6,7'' @ [CR]) @ replicate 49 NUL\<rparr>) =
   measure_and_run_model demo_env
     ((setup_sketch demo_env)\<lparr>in_str_buff := (''1,,2,3,4,5,6,7'' @ [CR]) @ replicate 49 NUL,
                               input_array := [1, 2, 3, 4, 5, 6, 7]\<rparr>) \<and>
   process_input demo_env
     ((setup_sketch demo_env)\<lparr>in_str_buff := (''1,2,3,4,5,6,'' @ [CR]) @ replicate 51 NUL\<rparr>) =
   measure_and_run_model demo_env
     ((setup_sketch demo_env)\<lparr>in_str_buff := (''1,2,3,4,5,6,'' @ [CR]) @ replicate 51 NUL,
                               input_array := [1, 2, 3, 4, 5, 6, 0]\<rparr>)"
proof -
  define sA where "sA = (setup_sketch demo_env)\<lparr>in_str_buff := (''1,,2,3,4,5,6'' @ [CR]) @ replicate 51 NUL\<rparr>"
  define sB where "sB = (setup_sketch demo_env)\<lparr>in_str_buff := (''1,,2,3,4,5,6,7'' @ [CR]) @ replicate 49 NUL\<rparr>"
  define sC where "sC = (setup_sketch demo_env)\<lparr>in_str_buff := (''1,2,3,4,5,6,'' @ [CR]) @ replicate 51 NUL\<rparr>"
  have len: "length (replicate 7 (0::int)) = INT_ARRAY_SIZE" by (simp add: INT_ARRAY_SIZE_def)
  have L: "length ((''1,,2,3,4,5,6'' @ [CR]) @ replicate 51 NUL) = INPUT_BUFFER_SIZE"
    "length ((''1,,2,3,4,5,6,7'' @ [CR]) @ replicate 49 NUL) = INPUT_BUFFER_SIZE"
    "length ((''1,2,3,4,5,6,'' @ [CR]) @ replicate 51 NUL) = INPUT_BUFFER_SIZE"
    by (simp_all add: INPUT_BUFFER_SIZE_def)
  have l0: "length (input_array (setup_sketch demo_env)) = INT_ARRAY_SIZE"
    by (rule setup_sketch_array_length)
  have lA: "length (input_array sA) = INT_ARRAY_SIZE" using l0 by (simp add: sA_def)
  have lB: "length (input_array sB) = INT_ARRAY_SIZE" using l0 by (simp add: sB_def)
  have lC: "length (input_array sC) = INT_ARRAY_SIZE" using l0 by (simp add: sC_def)
  have nn: "NUL \<notin> set (''1,,2,3,4,5,6'' @ [CR])" "NUL \<notin> set (''1,,2,3,4,5,6,7'' @ [CR])"
    "NUL \<notin> set (''1,2,3,4,5,6,'' @ [CR])"
    by (simp_all add: NUL_def CR_def)
  have cA: "c_string demo_env sA = ''1,,2,3,4,5,6'' @ [CR]"
    by (rule c_string_pad[OF nn(1), of 51]) (simp_all add: sA_def)
  have cB: "c_string demo_env sB = ''1,,2,3,4,5,6,7'' @ [CR]"
    by (rule c_string_pad[OF nn(2), of 49]) (simp_all add: sB_def)
  have cC: "c_string demo_env sC = ''1,2,3,4,5,6,'' @ [CR]"
    by (rule c_string_pad[OF nn(3), of 51]) (simp_all add: sC_def)
  note A = C10_empty_fields_skipped[of "''1,,2,3,4,5,6'' @ [CR]" "replicate 7 0" demo_env sA]
  note B = C10_empty_fields_skipped[of "''1,,2,3,4,5,6,7'' @ [CR]" "replicate 7 0" demo_env sB]
  note C = C10_empty_fields_skipped[of "''1,2,3,4,5,6,'' @ [CR]" "replicate 7 0" demo_env sC]
  have "fst (string_to_array demo_env (''1,,2,3,4,5,6'' @ [CR]) (replicate 7 0)) =
        min INT_ARRAY_SIZE (length (filter (\<lambda>f. f \<noteq> []) (split_commas (''1,,2,3,4,5,6'' @ [CR]))))"
    using A[THEN conjunct2, THEN conjunct1] len by (rule mp)
  then have 1: "fst (string_to_array demo_env (''1,,2,3,4,5,6'' @ [CR]) (replicate 7 0)) = 6"
    unfolding tokens_split_commas[symmetric] tokens_6 by (simp add: INT_ARRAY_SIZE_def)
  have 2: "process_input demo_env sA =
     Inr (emit [Println ''Error: Please enter exactly 7 integers.'']
            (sA\<lparr>input_array := [1, 2, 3, 4, 5, 6] @ drop 6 (input_array sA)\<rparr>))"
    using A[THEN conjunct2, THEN conjunct2, THEN mp, OF lA, THEN conjunct1] cA by (rule mp)
  have 3: "process_input demo_env sB =
     measure_and_run_model demo_env (sB\<lparr>input_array := [1, 2, 3, 4, 5, 6, 7]\<rparr>)"
    using B[THEN conjunct2, THEN conjunct2, THEN mp, OF lB, THEN conjunct2, THEN conjunct1] cB
    by (rule mp)
  have 4: "process_input demo_env sC =
     measure_and_run_model demo_env (sC\<lparr>input_array := [1, 2, 3, 4, 5, 6, 0]\<rparr>)"
    using C[THEN conjunct2, THEN conjunct2, THEN mp, OF lC, THEN conjunct2, THEN conjunct2] cC
    by (rule mp)
  show ?thesis
    unfolding sA_def[symmetric] sB_def[symmetric] sC_def[symmetric]
    by (intro conjI len L 1 2 3 4)
qed

text \<open>
  The claim as stated (an empty field after a trailing comma of an input line is no token)
  fails for the line \<open>1,2,3,4,5,6,\<close>: it has six non-empty fields, yet seven integers
  are read, the seventh 0, and the interpreter is invoked.
\<close>

theorem C10_trailing_comma_counterexample:
  "length (filter (\<lambda>f. f \<noteq> []) (split_commas ''1,2,3,4,5,6,'')) = 6 \<and>
   line_handed demo_env ''1,2,3,4,5,6,'' = Some (''1,2,3,4,5,6,'' @ [CR]) \<and>
   array_of (run demo_env (''1,2,3,4,5,6,'' @ [CR]) (setup_sketch demo_env)) =
     [1, 2, 3, 4, 5, 6, 0] \<and>
   Invoke [10, 20, 30, 40, 50, 60, 0] \<in>
     set (trace_of (run demo_env (''1,2,3,4,5,6,'' @ [CR]) (setup_sketch demo_env)))"
  by code_simp


subsection \<open>Start-up failure\<close>

text \<open>
  Claim C7, as the code has it.  When the schema version does not match or the tensor
  allocation fails, \<open>setup\<close> logs the failure and returns with both tensor pointers
  null, and nothing sets them later: whatever bytes follow, the pointers are still null,
  no value has been quantized into a tensor and the interpreter has not been invoked.  The
  sketch has no readiness flag and no not-ready response: all it prints in such a run are
  the echoed bytes, the start-up lines, line ends, the arity error and the announcement
  \<open>Running inference...\<close>.  A line with fewer than seven tokens is answered with the
  arity error as after a successful start-up; a line with seven or more tokens takes the
  sketch to \<open>measure_and_run_model\<close>, where the run ends at the null input tensor
  pointer, right after the announcement.
\<close>

theorem C7_failed_startup:
  assumes "model_version e \<noteq> TFLITE_SCHEMA_VERSION e \<or> \<not> allocate_ok e"
  shows "input_tensor (setup_sketch e) = None \<and> output_tensor (setup_sketch e) = None \<and>
         (Println ''Model schema version mismatch!'' \<in> set (trace (setup_sketch e)) \<or>
          Println ''Failed to allocate tensors!'' \<in> set (trace (setup_sketch e))) \<and>
         input_tensor (state_of (run e bs (setup_sketch e))) = None \<and>
         output_tensor (state_of (run e bs (setup_sketch e))) = None \<and>
         (\<forall>d. Invoke d \<notin> set (trace_of (run e bs (setup_sketch e)))) \<and>
         set (trace_of (run e bs (setup_sketch e))) \<subseteq> range Echo \<union> Println ` startup_lines \<and>
         fault_of (run e bs (setup_sketch e)) \<in> {None, Some NullTensor} \<and>
         (\<forall>s. run e bs (setup_sketch e) = Inr s \<and> buffer_empty s \<and> CR \<notin> set l \<and>
              NUL \<notin> set l \<and> length l + 2 \<le> INPUT_BUFFER_SIZE \<longrightarrow>
            (length (tokens (l @ [CR])) < INT_ARRAY_SIZE \<longrightarrow>
               (\<exists>s'. run e (bs @ l @ [CR]) (setup_sketch e) = Inr s' \<and>
                     trace s' = trace s @ map Echo (l @ [CR]) @
                       [Println [], Println ''Error: Please enter exactly 7 integers.''])) \<and>
            (INT_ARRAY_SIZE \<le> length (tokens (l @ [CR])) \<longrightarrow>
               (\<exists>s'. run e (bs @ l @ [CR]) (setup_sketch e) = Inl (NullTensor, s') \<and>
                     trace s' = trace s @ map Echo (l @ [CR]) @
                       [Println [], Println ''Running inference...''])))"
proof -
  have nr0: "not_ready (setup_sketch e)" by (rule setup_sketch_not_ready[OF assms])
  have ok0: "buffer_ok (setup_sketch e)"
    by (rule buffer_empty_ok[OF setup_sketch_buffer_empty])
  have 1: "input_tensor (setup_sketch e) = None \<and> output_tensor (setup_sketch e) = None"
    using nr0 by (simp add: not_ready_def)
  have 2: "Println ''Model schema version mismatch!'' \<in> set (trace (setup_sketch e)) \<or>
          Println ''Failed to allocate tensors!'' \<in> set (trace (setup_sketch e))"
    using assms by (auto simp: setup_sketch_def emit_def Let_def)
  note nr = run_not_ready[OF nr0 ok0, of e bs]
  have 3: "input_tensor (state_of (run e bs (setup_sketch e))) = None \<and>
         output_tensor (state_of (run e bs (setup_sketch e))) = None \<and>
         set (trace_of (run e bs (setup_sketch e))) \<subseteq> range Echo \<union> Println ` startup_lines"
    using nr by (simp add: not_ready_def trace_of_def)
  have 4: "\<forall>d. Invoke d \<notin> set (trace_of (run e bs (setup_sketch e)))"
    using 3 by auto
  have 5: "fault_of (run e bs (setup_sketch e)) \<in> {None, Some NullTensor}"
    using nr by simp
  have 6: "(length (tokens (l @ [CR])) < INT_ARRAY_SIZE \<longrightarrow>
               (\<exists>s'. run e (bs @ l @ [CR]) (setup_sketch e) = Inr s' \<and>
                     trace s' = trace s @ map Echo (l @ [CR]) @
                       [Println [], Println ''Error: Please enter exactly 7 integers.''])) \<and>
            (INT_ARRAY_SIZE \<le> length (tokens (l @ [CR])) \<longrightarrow>
               (\<exists>s'. run e (bs @ l @ [CR]) (setup_sketch e) = Inl (NullTensor, s') \<and>
                     trace s' = trace s @ map Echo (l @ [CR]) @
                       [Println [], Println ''Running inference...'']))"
    if h: "run e bs (setup_sketch e) = Inr s \<and> buffer_empty s \<and> CR \<notin> set l \<and>
              NUL \<notin> set l \<and> length l + 2 \<le> INPUT_BUFFER_SIZE" for s
  proof (intro conjI impI)
    have r: "run e bs (setup_sketch e) = Inr s" and be: "buffer_empty s"
      and l: "CR \<notin> set l" "NUL \<notin> set l" "length l + 2 \<le> INPUT_BUFFER_SIZE"
      using h by simp_all
    have len: "length (input_array s) = INT_ARRAY_SIZE"
      using run_array_length[OF setup_sketch_array_length[of e], of e bs] r by simp
    have it: "input_tensor s = None" using 3 r by simp
    {
      assume "length (tokens (l @ [CR])) < INT_ARRAY_SIZE"
      from run_short_line[OF be l len this, of e]
      show "\<exists>s'. run e (bs @ l @ [CR]) (setup_sketch e) = Inr s' \<and>
                     trace s' = trace s @ map Echo (l @ [CR]) @
                       [Println [], Println ''Error: Please enter exactly 7 integers.'']"
        using r by (auto simp: run_append[of e bs])
    }
    {
      assume "INT_ARRAY_SIZE \<le> length (tokens (l @ [CR]))"
      from run_long_line_null[OF be l len this it, of e]
      show "\<exists>s'. run e (bs @ l @ [CR]) (setup_sketch e) = Inl (NullTensor, s') \<and>
                     trace s' = trace s @ map Echo (l @ [CR]) @
                       [Println [], Println ''Running inference...'']"
        using r by (auto simp: run_append[of e bs])
    }
  qed
  show ?thesis using 1 2 3 4 5 6 by blast
qed

theorem C7_failed_startup_witness:
  "\<not> allocate_ok failing_env \<and>
   input_tensor (setup_sketch failing_env) = None \<and>
   input_tensor (state_of (run failing_env (''1,2,3,4,5,6,7'' @ [CR]) (setup_sketch failing_env))) =
     None \<and>
   (\<forall>d. Invoke d \<notin>
      set (trace_of (run failing_env (''1,2,3,4,5,6,7'' @ [CR]) (setup_sketch failing_env)))) \<and>
   run failing_env [] (setup_sketch failing_env) = Inr (setup_sketch failing_env) \<and>
   buffer_empty (setup_sketch failing_env) \<and>
   CR \<notin> set ''1,2'' \<and> NUL \<notin> set ''1,2'' \<and> length ''1,2'' + 2 \<le> INPUT_BUFFER_SIZE \<and>
   length (tokens (''1,2'' @ [CR])) < INT_ARRAY_SIZE \<and>
   (\<exists>s'. run failing_env ([] @ ''1,2'' @ [CR]) (setup_sketch failing_env) = Inr s' \<and>
         trace s' = trace (setup_sketch failing_env) @ map Echo (''1,2'' @ [CR]) @
           [Println [], Println ''Error: Please enter exactly 7 integers.'']) \<and>
   CR \<notin> set ''1,2,3,4,5,6,7'' \<and> NUL \<notin> set ''1,2,3,4,5,6,7'' \<and>
   length ''1,2,3,4,5,6,7'' + 2 \<le> INPUT_BUFFER_SIZE \<and>
   INT_ARRAY_SIZE \<le> length (tokens (''1,2,3,4,5,6,7'' @ [CR])) \<and>
   (\<exists>s'. run failing_env ([] @ ''1,2,3,4,5,6,7'' @ [CR]) (setup_sketch failing_env) =
           Inl (NullTensor, s') \<and>
         trace s' = trace (setup_sketch failing_env) @ map Echo (''1,2,3,4,5,6,7'' @ [CR]) @
           [Println [], Println ''Running inference...''])"
proof -
  have f: "model_version failing_env \<noteq> TFLITE_SCHEMA_VERSION failing_env \<or> \<not> allocate_ok failing_env"
    by (simp add: failing_env_def)
  have na: "\<not> allocate_ok failing_env" by (simp add: failing_env_def)
  have h: "CR \<notin> set ''1,2''" "NUL \<notin> set ''1,2''" "length ''1,2'' + 2 \<le> INPUT_BUFFER_SIZE"
    by (simp_all add: CR_def NUL_def INPUT_BUFFER_SIZE_def)
  have g: "CR \<notin> set ''1,2,3,4,5,6,7''" "NUL \<notin> set ''1,2,3,4,5,6,7''"
    "length ''1,2,3,4,5,6,7'' + 2 \<le> INPUT_BUFFER_SIZE"
    by (simp_all add: CR_def NUL_def INPUT_BUFFER_SIZE_def)
  have t: "length (tokens (''1,2'' @ [CR])) < INT_ARRAY_SIZE"
    "INT_ARRAY_SIZE \<le> length (tokens (''1,2,3,4,5,6,7'' @ [CR]))"
    by code_simp+
  have r: "run failing_env [] (setup_sketch failing_env) = Inr (setup_sketch failing_env)"
    by simp
  note be = setup_sketch_buffer_empty[of failing_env]
  note A = C7_failed_startup[OF f, of "''1,2,3,4,5,6,7'' @ [CR]"]
  note B = C7_failed_startup[OF f, of "[]" "''1,2''"]
  note C = C7_failed_startup[OF f, of "[]" "''1,2,3,4,5,6,7''"]
  have 1: "input_tensor (setup_sketch failing_env) = None" using A by blast
  have 2: "input_tensor (state_of (run failing_env (''1,2,3,4,5,6,7'' @ [CR])
             (setup_sketch failing_env))) = None" using A by blast
  have 3: "\<forall>d. Invoke d \<notin>
      set (trace_of (run failing_env (''1,2,3,4,5,6,7'' @ [CR]) (setup_sketch failing_env)))"
    using A by blast
  have 4: "\<exists>s'. run failing_env ([] @ ''1,2'' @ [CR]) (setup_sketch failing_env) = Inr s' \<and>
         trace s' = trace (setup_sketch failing_env) @ map Echo (''1,2'' @ [CR]) @
           [Println [], Println ''Error: Please enter exactly 7 integers.'']"
    using B r be h t(1) by blast
  have 5: "\<exists>s'. run failing_env ([] @ ''1,2,3,4,5,6,7'' @ [CR]) (setup_sketch failing_env) =
           Inl (NullTensor, s') \<and>
         trace s' = trace (setup_sketch failing_env) @ map Echo (''1,2,3,4,5,6,7'' @ [CR]) @
           [Println [], Println ''Running inference...'']"
    using C r be g t(2) by blast
  show ?thesis
    by (intro conjI na 1 2 3 r be h g t 4 5)
qed

text \<open>
  The claim as stated (every complete line is answered with a not-ready response) fails
  after a failed tensor allocation for the line \<open>1\<close>, which is answered with the arity
  error, and for the line \<open>1,2,3,4,5,6,7\<close>, which is answered with the announcement of
  an inference: neither trace holds any other line.
\<close>

theorem C7_not_ready_response_counterexample:
  "trace_of (run failing_env (''1'' @ [CR]) (setup_sketch failing_env)) =
     [Println ''TFLM Sine Wave Prediction Model Initializing...'',
      Println ''Failed to allocate tensors!'',
      Echo (CHR ''1''), Echo CR, Println [],
      Println ''Error: Please enter exactly 7 integers.''] \<and>
   drop 17 (trace_of (run failing_env (''1,2,3,4,5,6,7'' @ [CR]) (setup_sketch failing_env))) =
     [Println ''Running inference...''] \<and>
   fault_of (run failing_env (''1,2,3,4,5,6,7'' @ [CR]) (setup_sketch failing_env)) =
     Some NullTensor"
  by code_simp


subsection \<open>The numeric pipeline\<close>

text \<open>
  Claim C5, as the code has it.  For every raw \<open>int8\<close> output \<open>r\<close> and parameters
  \<open>sc\<close>, \<open>zp\<close>, the integer the sketch reports lies in \<open>[-128, 127]\<close>, in every run
  and with whatever interpreter.  The value \<open>y\<close> it prints before is the
  single-precision product of \<open>r - zp\<close> and \<open>sc\<close>, which differs from the exact
  product by the rounding of \<open>r - zp\<close> to \<open>float\<close> and of the product; the integer
  reported is \<open>y\<close>, not the exact product, rounded to the nearest integer (halves away
  from zero) and clamped to \<open>[-128, 127]\<close>, provided \<open>y\<close> is finite and the rounded
  value is within \<open>int\<close>: the sketch converts the rounded value to \<open>int\<close> before it
  clamps.
\<close>

theorem C5_prediction_rounded_and_clamped:
  "- 128 \<le> clamp_prediction e y \<and> clamp_prediction e y \<le> 127 \<and>
   (\<exists>n. nearest_integer v n) \<and>
   (nearest_integer v n \<and> in_int_range n \<longrightarrow>
      clamp_prediction e (Some v) = max (- 128) (min 127 n)) \<and>
   (in_int_range (sint r - zp) \<and> dequantize sc zp r = Some v \<longrightarrow>
      \<bar>v - of_int (sint r - zp) * sc\<bar>
        \<le> \<bar>of_int (sint r - zp) * sc\<bar> / 2 ^ 22 + (1 + \<bar>sc\<bar>) / 2 ^ 149) \<and>
   (input_tensor s = Some it \<and> output_tensor s = Some ot \<and> type_is_int8 it \<and> type_is_int8 ot \<and>
    quantize_loop e (params_scale it) (params_zero_point it) (input_array s) (data_int8 it) 0
      = Some dat \<and>
    invoke e dat = Some (r # out) \<longrightarrow>
      (\<exists>s'. measure_and_run_model e s = Inr s' \<and>
            trace s' = trace s @
              [Println ''Running inference...'', Invoke dat,
               Print ''Raw dequantized prediction (float): '',
               PrintlnFloat (dequantize (params_scale ot) (params_zero_point ot) r),
               Print ''Predicted next integer value: '',
               PrintlnInt (clamp_prediction e
                 (dequantize (params_scale ot) (params_zero_point ot) r)),
               Print ''Printing time (us): '',
               PrintlnULong (micros e (clock_reads s + 1) - micros e (clock_reads s)),
               Print ''Inference time (us): '',
               PrintlnULong (micros e (clock_reads s + 2) - micros e (clock_reads s + 1))])) \<and>
   (PrintlnInt q \<in> set (trace_of (run e bs (setup_sketch e))) \<longrightarrow> - 128 \<le> q \<and> q \<le> 127)"
proof (intro conjI impI)
  show "- 128 \<le> clamp_prediction e y" "clamp_prediction e y \<le> 127"
    using clamp_prediction_range[of e y] by simp_all
  show "\<exists>n. nearest_integer v n"
    using round_half_away_nearest by blast
  show "clamp_prediction e (Some v) = max (- 128) (min 127 n)"
    if "nearest_integer v n \<and> in_int_range n"
  proof -
    have "n = round_half_away v" using that by (simp add: nearest_integer_iff)
    then show ?thesis using that clamp_prediction_finite[of v e] by simp
  qed
  show "\<bar>v - of_int (sint r - zp) * sc\<bar>
        \<le> \<bar>of_int (sint r - zp) * sc\<bar> / 2 ^ 22 + (1 + \<bar>sc\<bar>) / 2 ^ 149"
    if "in_int_range (sint r - zp) \<and> dequantize sc zp r = Some v"
    using dequantize_error[OF conjunct1[OF that] conjunct2[OF that]] .
next
  assume a: "input_tensor s = Some it \<and> output_tensor s = Some ot \<and> type_is_int8 it \<and> type_is_int8 ot \<and>
    quantize_loop e (params_scale it) (params_zero_point it) (input_array s) (data_int8 it) 0
      = Some dat \<and>
    invoke e dat = Some (r # out)"
  show "\<exists>s'. measure_and_run_model e s = Inr s' \<and>
            trace s' = trace s @
              [Println ''Running inference...'', Invoke dat,
               Print ''Raw dequantized prediction (float): '',
               PrintlnFloat (dequantize (params_scale ot) (params_zero_point ot) r),
               Print ''Predicted next integer value: '',
               PrintlnInt (clamp_prediction e
                 (dequantize (params_scale ot) (params_zero_point ot) r)),
               Print ''Printing time (us): '',
               PrintlnULong (micros e (clock_reads s + 1) - micros e (clock_reads s)),
               Print ''Inference time (us): '',
               PrintlnULong (micros e (clock_reads s + 2) - micros e (clock_reads s + 1))]"
    using measure_and_run_model_success[of s it ot e dat r out] a by blast
next
  assume a: "PrintlnInt q \<in> set (trace_of (run e bs (setup_sketch e)))"
  have "prints_in_range (trace_of (run e bs (setup_sketch e)))"
    unfolding trace_of_def by (rule run_prints[OF setup_sketch_prints])
  then show "- 128 \<le> q" "q \<le> 127"
    using a by (auto simp: prints_in_range_def)
qed

theorem C5_prediction_rounded_and_clamped_witness:
  "- 128 \<le> clamp_prediction demo_env (Some (7 / 2)) \<and>
   clamp_prediction demo_env (Some (7 / 2)) \<le> 127 \<and>
   nearest_integer (7 / 2) 4 \<and> in_int_range 4 \<and>
   clamp_prediction demo_env (Some (7 / 2)) = max (- 128) (min 127 4) \<and>
   nearest_integer 200 200 \<and> in_int_range 200 \<and>
   clamp_prediction demo_env (Some 200) = max (- 128) (min 127 200) \<and>
   in_int_range (sint (70 :: 8 word) - 0) \<and>
   dequantize (13421773 / 134217728) 0 70 = Some 7 \<and>
   \<bar>7 - of_int (sint (70 :: 8 word) - 0) * (13421773 / 134217728)\<bar>
     \<le> \<bar>of_int (sint (70 :: 8 word) - 0) * (13421773 / 134217728)\<bar> / 2 ^ 22 +
        (1 + \<bar>13421773 / 134217728 :: rat\<bar>) / 2 ^ 149 \<and>
   (\<exists>s'. measure_and_run_model demo_env
           ((setup_sketch demo_env)\<lparr>input_array := [1, 2, 3, 4, 5, 6, 7]\<rparr>) = Inr s' \<and>
         PrintlnInt 7 \<in> set (trace s')) \<and>
   PrintlnInt 7 \<in> set (trace_of (run demo_env (''1,2,3,4,5,6,7'' @ [CR]) (setup_sketch demo_env))) \<and>
   - 128 \<le> (7::int) \<and> (7::int) \<le> 127"
proof -
  define s where "s = (setup_sketch demo_env)\<lparr>input_array := [1, 2, 3, 4, 5, 6, 7]\<rparr>"
  define ot where "ot = demo_tensor\<lparr>data_int8 := [0]\<rparr>"
  have h: "input_tensor s = Some demo_tensor" "output_tensor s = Some ot"
    "type_is_int8 demo_tensor" "type_is_int8 ot"
    "input_array s = [1, 2, 3, 4, 5, 6, 7]"
    "invoke demo_env [10, 20, 30, 40, 50, 60, 70] = Some (70 # [])"
    "params_scale ot = 13421773 / 134217728" "params_zero_point ot = 0"
    by (simp_all add: s_def ot_def setup_sketch_def demo_env_def demo_tensor_def emit_def Let_def)
  note A = C5_prediction_rounded_and_clamped[where e = demo_env and y = "Some (7 / 2)"
      and v = "7 / 2" and n = 4]
  note B = C5_prediction_rounded_and_clamped[where e = demo_env and v = 200 and n = 200]
  note C = C5_prediction_rounded_and_clamped[where r = 70 and zp = 0
      and sc = "13421773 / 134217728" and v = 7]
  note D = C5_prediction_rounded_and_clamped[where s = s and it = demo_tensor
      and ot = ot and dat = "[10, 20, 30, 40, 50, 60, 70]"
      and e = demo_env and r = 70 and out = "[]"]
  note E = C5_prediction_rounded_and_clamped[where e = demo_env
      and bs = "''1,2,3,4,5,6,7'' @ [CR]" and q = 7]
  have 1: "- 128 \<le> clamp_prediction demo_env (Some (7 / 2))"
    "clamp_prediction demo_env (Some (7 / 2)) \<le> 127"
    using A by blast+
  have 2: "clamp_prediction demo_env (Some (7 / 2)) = max (- 128) (min 127 4)"
    using A demo_dequantize(1,2) by blast
  have 3: "clamp_prediction demo_env (Some 200) = max (- 128) (min 127 200)"
    using B demo_dequantize(3,4) by blast
  have 4: "\<bar>7 - of_int (sint (70 :: 8 word) - 0) * (13421773 / 134217728)\<bar>
     \<le> \<bar>of_int (sint (70 :: 8 word) - 0) * (13421773 / 134217728)\<bar> / 2 ^ 22 +
        (1 + \<bar>13421773 / 134217728 :: rat\<bar>) / 2 ^ 149"
    using C[THEN conjunct2, THEN conjunct2, THEN conjunct2, THEN conjunct2, THEN conjunct1]
      conjI[OF demo_dequantize(5,6)] by (rule mp)
  have "\<exists>s'. measure_and_run_model demo_env s = Inr s' \<and>
            trace s' = trace s @
              [Println ''Running inference...'', Invoke [10, 20, 30, 40, 50, 60, 70],
               Print ''Raw dequantized prediction (float): '',
               PrintlnFloat (dequantize (params_scale ot) (params_zero_point ot) 70),
               Print ''Predicted next integer value: '',
               PrintlnInt (clamp_prediction demo_env
                 (dequantize (params_scale ot) (params_zero_point ot) 70)),
               Print ''Printing time (us): '',
               PrintlnULong (micros demo_env (clock_reads s + 1) - micros demo_env (clock_reads s)),
               Print ''Inference time (us): '',
               PrintlnULong (micros demo_env (clock_reads s + 2) - micros demo_env (clock_reads s + 1))]"
    using D[THEN conjunct2, THEN conjunct2, THEN conjunct2, THEN conjunct2, THEN conjunct2,
        THEN conjunct1] h(1-4) demo_quantize_loop h(6) unfolding h(5) by blast
  then have "\<exists>s'. measure_and_run_model demo_env s = Inr s' \<and> PrintlnInt 7 \<in> set (trace s')"
    unfolding h(7,8) demo_dequantize(6,7) by auto
  then have 5: "\<exists>s'. measure_and_run_model demo_env
           ((setup_sketch demo_env)\<lparr>input_array := [1, 2, 3, 4, 5, 6, 7]\<rparr>) = Inr s' \<and>
         PrintlnInt 7 \<in> set (trace s')"
    unfolding s_def .
  have 6: "- 128 \<le> (7::int) \<and> (7::int) \<le> 127"
    using E[THEN conjunct2, THEN conjunct2, THEN conjunct2, THEN conjunct2, THEN conjunct2,
        THEN conjunct2] demo_line_prints by (rule mp)
  show ?thesis
    by (intro conjI 1 2 3 4 5 demo_dequantize(1-6) demo_line_prints conjunct1[OF 6] conjunct2[OF 6])
qed

text \<open>
  The claim as stated fails in its first half.  With the scale 0.7 (the \<open>float\<close>
  nearest to it), zero point 0 and \<open>r = 5\<close> the exact product rounds to 3, but its
  single-precision value is 3.5 and the sketch reports 4.  With the scale \<open>10\<^sup>9\<close>
  and \<open>r = 100\<close> the product is about \<open>10\<^sup>1\<^sup>1\<close>, which clamps to 127; the sketch
  converts it to \<open>int\<close> first, and where that conversion gives the least \<open>int\<close> it
  reports -128.
\<close>

theorem C5_exact_product_counterexample:
  "dequantize (11744051 / 16777216) 0 5 = Some (7 / 2) \<and>
   nearest_integer (of_int (sint (5 :: 8 word) - 0) * (11744051 / 16777216)) 3 \<and>
   max (- 128) (min 127 (3::int)) = 3 \<and>
   clamp_prediction demo_env (Some (7 / 2)) = 4 \<and>
   PrintlnInt 4 \<in> set (trace_of (run (output_env (11744051 / 16777216) 5)
       (''1,2,3,4,5,6,7'' @ [CR]) (setup_sketch (output_env (11744051 / 16777216) 5)))) \<and>
   dequantize 1000000000 0 100 = Some 99999997952 \<and>
   nearest_integer 99999997952 99999997952 \<and>
   max (- 128) (min 127 (99999997952::int)) = 127 \<and>
   clamp_prediction demo_env (Some 99999997952) = - 128 \<and>
   PrintlnInt (- 128) \<in> set (trace_of (run (output_env 1000000000 100)
       (''1,2,3,4,5,6,7'' @ [CR]) (setup_sketch (output_env 1000000000 100))))"
  by code_simp


text \<open>
  Claim C3 against the code.  Each of the seven values the loop writes into the input
  tensor is \<open>quantize\<close> of the corresponding integer.  Where the single-precision
  quotient of \<open>x - zp\<close> by the scale has its integer part \<open>t\<close> within \<open>int\<close>, the
  value written is the low byte of \<open>t\<close>: it is \<open>t\<close> itself when \<open>t\<close> lies in
  \<open>[-128, 127]\<close>, and otherwise it is \<open>t\<close> wrapped around, not \<open>t\<close> saturated.  With
  scale 1 and zero point 0 the input 200 is stored as -56; with the scale 0.1 of the
  concrete environment the input 13 is stored as -126 and the interpreter is invoked on it.
\<close>

theorem C3_cast_does_not_saturate:
  "(float_div (float_of_int (wrap_int (x - zp))) sc = Some d \<and>
    in_int_range (trunc_toward_zero d) \<longrightarrow>
      sint (quantize e sc zp x) = (trunc_toward_zero d + 128) mod 256 - 128 \<and>
      (- 128 \<le> trunc_toward_zero d \<and> trunc_toward_zero d \<le> 127 \<longrightarrow>
         sint (quantize e sc zp x) = trunc_toward_zero d)) \<and>
   (quantize_loop e sc zp arr dat 0 = Some dat' \<and> j < INT_ARRAY_SIZE \<longrightarrow>
      length dat' = length dat \<and> dat' ! j = quantize e sc zp (arr ! j)) \<and>
   sint (quantize e 1 0 200) = - 56 \<and>
   sint (quantize e (13421773 / 134217728) 0 13) = - 126 \<and>
   max (- 128) (min 127 (trunc_toward_zero (of_int (200 - 0) / 1))) = 127 \<and>
   Invoke [10, 20, 30, 40, 50, 60, - 126] \<in>
     set (trace_of (run demo_env (''1,2,3,4,5,6,13'' @ [CR]) (setup_sketch demo_env)))"
proof (intro conjI impI)
  {
    assume a: "float_div (float_of_int (wrap_int (x - zp))) sc = Some d \<and>
      in_int_range (trunc_toward_zero d)"
    show "sint (quantize e sc zp x) = (trunc_toward_zero d + 128) mod 256 - 128"
      unfolding quantize_quotient[OF conjunct1[OF a] conjunct2[OF a]]
      by (rule sint_word8_wrap)
    assume "- 128 \<le> trunc_toward_zero d \<and> trunc_toward_zero d \<le> 127"
    then show "sint (quantize e sc zp x) = trunc_toward_zero d"
      using quantize_in_range[OF conjunct1[OF a]] by blast
  }
  {
    assume a: "quantize_loop e sc zp arr dat 0 = Some dat' \<and> j < INT_ARRAY_SIZE"
    show "length dat' = length dat" "dat' ! j = quantize e sc zp (arr ! j)"
      using quantize_loop_Some[OF conjunct1[OF a]] conjunct2[OF a] by simp_all
  }
  show "sint (quantize e 1 0 200) = - 56" by code_simp
  show "sint (quantize e (13421773 / 134217728) 0 13) = - 126" by code_simp
  show "max (- 128) (min 127 (trunc_toward_zero (of_int (200 - 0) / 1))) = 127" by code_simp
  show "Invoke [10, 20, 30, 40, 50, 60, - 126] \<in>
     set (trace_of (run demo_env (''1,2,3,4,5,6,13'' @ [CR]) (setup_sketch demo_env)))"
    by code_simp
qed

theorem C3_cast_does_not_saturate_witness:
  "float_div (float_of_int (wrap_int (13 - 0))) (13421773 / 134217728) = Some 130 \<and>
   in_int_range (trunc_toward_zero 130) \<and>
   sint (quantize demo_env (13421773 / 134217728) 0 13) = (trunc_toward_zero 130 + 128) mod 256 - 128 \<and>
   float_div (float_of_int (wrap_int (12 - 0))) (13421773 / 134217728) = Some 120 \<and>
   in_int_range (trunc_toward_zero 120) \<and>
   - 128 \<le> trunc_toward_zero 120 \<and> trunc_toward_zero 120 \<le> 127 \<and>
   sint (quantize demo_env (13421773 / 134217728) 0 12) = trunc_toward_zero 120 \<and>
   quantize_loop demo_env (params_scale demo_tensor) (params_zero_point demo_tensor)
     [1, 2, 3, 4, 5, 6, 7] (data_int8 demo_tensor) 0 = Some [10, 20, 30, 40, 50, 60, 70] \<and>
   (6::nat) < INT_ARRAY_SIZE \<and>
   [10, 20, 30, 40, 50, 60, 70] ! 6 =
     quantize demo_env (params_scale demo_tensor) (params_zero_point demo_tensor)
       ([1, 2, 3, 4, 5, 6, 7] ! 6)"
proof -
  have h: "float_div (float_of_int (wrap_int (13 - 0))) (13421773 / 134217728) = Some 130"
    "in_int_range (trunc_toward_zero 130)"
    "float_div (float_of_int (wrap_int (12 - 0))) (13421773 / 134217728) = Some 120"
    "in_int_range (trunc_toward_zero 120)"
    "- 128 \<le> trunc_toward_zero 120" "trunc_toward_zero 120 \<le> 127"
    by code_simp+
  have 6: "(6::nat) < INT_ARRAY_SIZE" by (simp add: INT_ARRAY_SIZE_def)
  note A = C3_cast_does_not_saturate[where e = demo_env and x = 13 and zp = 0
      and sc = "13421773 / 134217728" and d = 130, THEN conjunct1, THEN mp, OF conjI[OF h(1,2)]]
  note B = C3_cast_does_not_saturate[where e = demo_env and x = 12 and zp = 0
      and sc = "13421773 / 134217728" and d = 120, THEN conjunct1, THEN mp, OF conjI[OF h(3,4)]]
  note C = C3_cast_does_not_saturate[where e = demo_env and sc = "params_scale demo_tensor"
      and zp = "params_zero_point demo_tensor" and arr = "[1, 2, 3, 4, 5, 6, 7]"
      and dat = "data_int8 demo_tensor" and dat' = "[10, 20, 30, 40, 50, 60, 70]" and j = 6,
      THEN conjunct2, THEN conjunct1, THEN mp, OF conjI[OF demo_quantize_loop 6]]
  have 1: "sint (quantize demo_env (13421773 / 134217728) 0 13) =
             (trunc_toward_zero 130 + 128) mod 256 - 128"
    by (rule A[THEN conjunct1])
  have 2: "sint (quantize demo_env (13421773 / 134217728) 0 12) = trunc_toward_zero 120"
    using A B h(5,6) by blast
  have 3: "[10, 20, 30, 40, 50, 60, 70] ! 6 =
     quantize demo_env (params_scale demo_tensor) (params_zero_point demo_tensor)
       ([1, 2, 3, 4, 5, 6, 7] ! 6)"
    by (rule C[THEN conjunct2])
  show ?thesis
    by (intro conjI h 1 2 demo_quantize_loop 6 3)
qed


text \<open>
  Claim C2, as the code has it.  For the zero point 0, a scale \<open>sc > 0\<close> and an integer
  \<open>x\<close> whose single-precision quotient by the scale has its integer part in
  \<open>[-128, 127]\<close>, dequantizing the quantized \<open>x\<close> gives a finite \<open>float\<close> \<open>y\<close>
  within one quantization step of \<open>x\<close> up to the rounding of the four single-precision
  operations involved (two conversions, the division and the multiplication): the distance
  is below \<open>sc\<close> plus an allowance of less than \<open>sc / 2\<^sup>1\<^sup>3 + 1 / 2\<^sup>1\<^sup>4\<^sup>0\<close>.
\<close>

theorem C2_round_trip:
  assumes "0 < sc" "in_int_range x" "float_div (float_of_int x) sc = Some d"
    and "- 128 \<le> trunc_toward_zero d" "trunc_toward_zero d \<le> 127"
  shows "\<exists>y. dequantize sc 0 (quantize e sc 0 x) = Some y \<and>
             \<bar>y - of_int x\<bar> < sc + (\<bar>of_int x\<bar> + 128 * sc) / 2 ^ 22 + (1 + sc) / 2 ^ 148 \<and>
             \<bar>y - of_int x\<bar> < sc + sc / 2 ^ 13 + 1 / 2 ^ 140"
  using assms by (rule round_trip_zero)

theorem C2_round_trip_witness:
  "(0::rat) < 13421773 / 134217728 \<and> in_int_range 12 \<and>
   float_div (float_of_int 12) (13421773 / 134217728) = Some 120 \<and>
   - 128 \<le> trunc_toward_zero 120 \<and> trunc_toward_zero 120 \<le> 127 \<and>
   dequantize (13421773 / 134217728) 0 (quantize demo_env (13421773 / 134217728) 0 12) = Some 12 \<and>
   \<bar>12 - of_int 12\<bar> < 13421773 / 134217728 + (13421773 / 134217728) / 2 ^ 13 + 1 / (2 ^ 140 :: rat) \<and>
   (0::rat) < 2210923 / 16 \<and> in_int_range 17549201 \<and>
   float_div (float_of_int 17549201) (2210923 / 16) = Some (16646143 / 131072) \<and>
   - 128 \<le> trunc_toward_zero (16646143 / 131072) \<and>
   trunc_toward_zero (16646143 / 131072) \<le> 127 \<and>
   dequantize (2210923 / 16) 0 (quantize demo_env (2210923 / 16) 0 17549201) = Some 17411018 \<and>
   \<bar>17411018 - of_int 17549201\<bar> < 2210923 / 16 + (2210923 / 16) / 2 ^ 13 + 1 / (2 ^ 140 :: rat)"
proof -
  have h: "(0::rat) < 13421773 / 134217728" "in_int_range 12"
    "float_div (float_of_int 12) (13421773 / 134217728) = Some 120"
    "- 128 \<le> trunc_toward_zero 120" "trunc_toward_zero 120 \<le> 127"
    by code_simp+
  have g: "(0::rat) < 2210923 / 16" "in_int_range 17549201"
    "float_div (float_of_int 17549201) (2210923 / 16) = Some (16646143 / 131072)"
    "- 128 \<le> trunc_toward_zero (16646143 / 131072)"
    "trunc_toward_zero (16646143 / 131072) \<le> 127"
    by code_simp+
  have v: "dequantize (13421773 / 134217728) 0 (quantize demo_env (13421773 / 134217728) 0 12) =
             Some 12"
    "dequantize (2210923 / 16) 0 (quantize demo_env (2210923 / 16) 0 17549201) = Some 17411018"
    by code_simp+
  have 1: "\<bar>12 - of_int 12\<bar> <
             13421773 / 134217728 + (13421773 / 134217728) / 2 ^ 13 + 1 / (2 ^ 140 :: rat)"
    using C2_round_trip[OF h, of demo_env] unfolding v(1) by auto
  have 2: "\<bar>17411018 - of_int 17549201\<bar> <
             2210923 / 16 + (2210923 / 16) / 2 ^ 13 + 1 / (2 ^ 140 :: rat)"
    using C2_round_trip[OF g, of demo_env] unfolding v(2) by auto
  show ?thesis
    by (intro conjI h g v 1 2)
qed

text \<open>
  The claim as stated fails in two ways.  With a zero point other than 0 the round trip
  does not come back to \<open>x\<close>: for scale 1, zero point 10 and \<open>x = 50\<close> the quantized
  value is 40, inside the \<open>int8\<close> range, and the round trip gives 30.  And with the zero
  point 0 the rounding of the single-precision operations can carry the result more than
  one step away: for the scale 138182.6875 and \<open>x = 17549201\<close> the quantized value is 126
  and the round trip gives 17411018, which is 138183 away.  Both are what the sketch prints
  for such a line when the interpreter hands its first input value back.
\<close>

theorem C2_round_trip_counterexample:
  "(0::rat) < 1 \<and> sint (quantize demo_env 1 10 50) = 40 \<and>
   dequantize 1 10 (quantize demo_env 1 10 50) = Some 30 \<and>
   \<not> \<bar>(30::rat) - of_int 50\<bar> \<le> 1 \<and>
   PrintlnFloat (Some 30) \<in> set (trace_of (run (echo_env 1 10) (''50,0,0,0,0,0,0'' @ [CR])
       (setup_sketch (echo_env 1 10)))) \<and>
   (0::rat) < 2210923 / 16 \<and> sint (quantize demo_env (2210923 / 16) 0 17549201) = 126 \<and>
   dequantize (2210923 / 16) 0 (quantize demo_env (2210923 / 16) 0 17549201) = Some 17411018 \<and>
   \<not> \<bar>(17411018::rat) - of_int 17549201\<bar> \<le> 2210923 / 16 \<and>
   PrintlnFloat (Some 17411018) \<in> set (trace_of (run (echo_env (2210923 / 16) 0)
       (''17549201,0,0,0,0,0,0'' @ [CR]) (setup_sketch (echo_env (2210923 / 16) 0))))"
  by code_simp


end
